(* ===== verification/Prelude.thy ===== *)
theory Prelude
  imports Main "HOL-Library.AList" "HOL-Library.Sublist" "HOL-Library.Word"
begin

section \<open>Shared vocabulary of the development\<close>

text \<open>
  What every component uses: Rust's result type and strings, \<^verbatim>\<open>HashMap\<close> as an association
  list, \<^verbatim>\<open>Duration\<close>/\<^verbatim>\<open>Instant\<close> as natural numbers of nanoseconds, decimal printing, the
  lemma collections that carry the component proofs, and the locale for withdrawing shared entries.

  A Rust \<^verbatim>\<open>String\<close> is a \<^typ>\<open>string\<close> whose characters are its UTF-8 bytes. The source only
  compares, concatenates and cuts strings at ASCII characters, so the byte view is exact; the two
  places that look at Unicode (\<^verbatim>\<open>str::trim\<close>, in \<^verbatim>\<open>proxy_configured\<close> and \<^verbatim>\<open>env_certificates\<close>, and
  \<^verbatim>\<open>str::from_utf8\<close> in \<^verbatim>\<open>get\<close>) are written over the UTF-8 encodings.
\<close>

named_theorems hmap_simps \<open>equations of the HashMap model\<close>
named_theorems str_simps \<open>equations of the string helpers\<close>
named_theorems time_simps \<open>equations of the Duration model\<close>

type_synonym 'a result = "string + 'a"
type_synonym u8 = "8 word"
type_synonym u16 = "16 word"
type_synonym u32 = "32 word"
type_synonym u64 = "64 word"
type_synonym bytes = "u8 list"

subsection \<open>HashMap with string keys\<close>

text \<open>
  The iteration order of a \<^verbatim>\<open>HashMap\<close> is unspecified; here it is the order of the list, and the
  components that iterate prove that their results do not depend on it.
\<close>

type_synonym 'v hmap = "(string \<times> 'v) list"

definition hm_get :: "'v hmap \<Rightarrow> string \<Rightarrow> 'v option" where
  "hm_get m k = map_of m k"

definition hm_contains :: "'v hmap \<Rightarrow> string \<Rightarrow> bool" where
  "hm_contains m k = (hm_get m k \<noteq> None)"

definition hm_insert :: "string \<Rightarrow> 'v \<Rightarrow> 'v hmap \<Rightarrow> 'v hmap" where
  "hm_insert k v m = AList.update k v m"

definition hm_remove :: "string \<Rightarrow> 'v hmap \<Rightarrow> 'v hmap" where
  "hm_remove k m = AList.delete k m"

abbreviation hm_keys :: "'v hmap \<Rightarrow> string list" where
  "hm_keys m \<equiv> map fst m"

abbreviation hm_ok :: "'v hmap \<Rightarrow> bool" where
  "hm_ok m \<equiv> distinct (map fst m)"

lemma hm_get_Nil [hmap_simps, simp]: "hm_get [] k = None"
  by (simp add: hm_get_def)

lemma hm_get_insert [hmap_simps, simp]:
  "hm_get (hm_insert k v m) k' = (if k' = k then Some v else hm_get m k')"
  by (simp add: hm_get_def hm_insert_def update_conv)

lemma hm_get_remove [hmap_simps, simp]:
  "hm_get (hm_remove k m) k' = (if k' = k then None else hm_get m k')"
  by (simp add: hm_get_def hm_remove_def delete_conv)

lemma hm_contains_insert [hmap_simps, simp]:
  "hm_contains (hm_insert k v m) k' = (k' = k \<or> hm_contains m k')"
  by (simp add: hm_contains_def)

lemma hm_contains_remove [hmap_simps, simp]:
  "hm_contains (hm_remove k m) k' = (k' \<noteq> k \<and> hm_contains m k')"
  by (simp add: hm_contains_def)

lemma hm_contains_iff: "hm_contains m k = (k \<in> fst ` set m)"
  by (simp add: hm_contains_def hm_get_def map_of_eq_None_iff)

lemma hm_ok_insert [simp, intro]: "hm_ok m \<Longrightarrow> hm_ok (hm_insert k v m)"
  by (simp add: hm_insert_def distinct_update)

lemma hm_ok_remove [simp, intro]: "hm_ok m \<Longrightarrow> hm_ok (hm_remove k m)"
  by (simp add: hm_remove_def distinct_delete)

lemma hm_ok_filter [simp, intro]: "hm_ok m \<Longrightarrow> hm_ok (filter P m)"
  by (simp add: distinct_map_filter)

lemma hm_keys_insert: "set (hm_keys (hm_insert k v m)) = insert k (set (hm_keys m))"
  by (simp add: hm_insert_def dom_update)

lemma hm_keys_remove: "set (hm_keys (hm_remove k m)) = set (hm_keys m) - {k}"
  by (auto simp: hm_remove_def AList.delete_eq)

lemma hm_remove_filter: "hm_remove k m = filter (\<lambda>x. fst x \<noteq> k) m"
  by (auto simp: hm_remove_def AList.delete_eq intro!: filter_cong)

lemma hm_insert_new: "\<not> hm_contains m k \<Longrightarrow> hm_insert k v m = m @ [(k, v)]"
  by (induction m) (auto simp: hm_insert_def hm_contains_def hm_get_def split: if_splits)

lemma length_hm_insert:
  "length (hm_insert k v m) = (if hm_contains m k then length m else Suc (length m))"
  by (induction m) (auto simp: hm_insert_def hm_contains_def hm_get_def split: if_splits)

lemma length_hm_remove_le [simp]: "length (hm_remove k m) \<le> length m"
  by (simp add: hm_remove_def length_delete_le)

lemma length_hm_remove:
  "hm_ok m \<Longrightarrow> length (hm_remove k m) = (if hm_contains m k then length m - 1 else length m)"
proof (induction m)
  case Nil
  then show ?case by (simp add: hm_remove_def hm_contains_def)
next
  case (Cons x m)
  then show ?case
    by (cases x, cases m) (auto simp: hm_remove_filter hm_contains_iff split: if_splits)
qed

lemma hm_remove_insert_new [simp]:
  "hm_get m k = None \<Longrightarrow> hm_remove k (hm_insert k v m) = m"
  by (simp add: hm_remove_def hm_insert_def hm_get_def delete_update_same map_of_eq_None_iff)

lemma hm_get_in_set: "hm_get m k = Some v \<Longrightarrow> (k, v) \<in> set m"
  by (simp add: hm_get_def map_of_SomeD)

lemma hm_get_iff: "hm_ok m \<Longrightarrow> hm_get m k = Some v \<longleftrightarrow> (k, v) \<in> set m"
  by (simp add: hm_get_def)

lemma hm_get_filter:
  "hm_ok m \<Longrightarrow> hm_get (filter P m) k =
     (case hm_get m k of None \<Rightarrow> None | Some v \<Rightarrow> if P (k, v) then Some v else None)"
proof (induction m)
  case Nil
  then show ?case by simp
next
  case (Cons x m)
  then show ?case
    by (cases x) (auto simp: hm_get_def map_of_eq_None_iff split: option.splits if_splits
        dest: map_of_SomeD)
qed

text \<open>How many entries satisfy a predicate, after an insertion and after an update in place.\<close>

lemma length_filter_insert: "length (filter P (hm_insert k v m)) \<le> Suc (length (filter P m))"
  by (induction m) (auto simp: hm_insert_def)

lemma length_filter_insert_other:
  "\<not> P (k, v) \<Longrightarrow> length (filter P (hm_insert k v m)) \<le> length (filter P m)"
  by (induction m) (auto simp: hm_insert_def)

lemma length_filter_update:
  "hm_get m k = Some e \<Longrightarrow> (P (k, v) \<Longrightarrow> P (k, e)) \<Longrightarrow>
   length (filter P (hm_insert k v m)) \<le> length (filter P m)"
  by (induction m) (auto simp: hm_insert_def hm_get_def split: if_splits)

lemma length_filter_filter: "length (filter P (filter Q m)) \<le> length (filter P m)"
  by (induction m) auto

lemma hm_insert_in_set: "x \<in> set (hm_insert k v m) \<Longrightarrow> x = (k, v) \<or> x \<in> set m"
  by (induction m) (auto simp: hm_insert_def split: if_splits)

subsection \<open>Strings\<close>

text \<open>\<^verbatim>\<open>str::contains\<close> and \<^verbatim>\<open>str::find\<close> with a string pattern.\<close>

fun contains :: "string \<Rightarrow> string \<Rightarrow> bool" where
  "contains [] p = (p = [])"
| "contains (c # s) p = (prefix p (c # s) \<or> contains s p)"

fun find_str :: "string \<Rightarrow> string \<Rightarrow> nat option" where
  "find_str [] p = (if p = [] then Some 0 else None)"
| "find_str (c # s) p = (if prefix p (c # s) then Some 0 else map_option Suc (find_str s p))"

text \<open>\<^verbatim>\<open>str::trim_end_matches(char)\<close>, \<^verbatim>\<open>str::rsplit_once(char)\<close>.\<close>

definition trim_end_char :: "char \<Rightarrow> string \<Rightarrow> string" where
  "trim_end_char c s = rev (dropWhile ((=) c) (rev s))"

text \<open>\<^verbatim>\<open>trim_start_matches\<close> with a string pattern removes it as often as it stands in front.\<close>

function trim_start_matches :: "string \<Rightarrow> string \<Rightarrow> string" where
  "trim_start_matches pat s =
     (if pat \<noteq> [] \<and> prefix pat s then trim_start_matches pat (drop (length pat) s) else s)"
  by pat_completeness auto
termination
  by (relation "measure (\<lambda>(_, s). length s)") (auto simp: prefix_def)

declare trim_start_matches.simps [simp del]

definition rsplit_once :: "char \<Rightarrow> string \<Rightarrow> (string \<times> string) option" where
  "rsplit_once c s =
     (if c \<in> set s
      then Some (rev (tl (dropWhile ((\<noteq>) c) (rev s))), rev (takeWhile ((\<noteq>) c) (rev s)))
      else None)"

lemma contains_sublist: "contains s p \<longleftrightarrow> sublist p s"
  by (induction s) (auto simp: sublist_Cons_right)

lemma contains_iff: "contains s p \<longleftrightarrow> (\<exists>a b. s = a @ p @ b)"
  by (simp add: contains_sublist sublist_def)

lemma contains_refl [simp, str_simps]: "contains s s"
  by (simp add: contains_sublist)

lemma contains_append_left: "contains s p \<Longrightarrow> contains (t @ s) p"
  unfolding contains_iff by (metis append.assoc)

lemma contains_append_right: "contains s p \<Longrightarrow> contains (s @ t) p"
  unfolding contains_iff by (metis append.assoc)

lemma find_str_Some: "find_str s p = Some i \<Longrightarrow> i \<le> length s \<and> prefix p (drop i s)"
  by (induction s arbitrary: i) (auto split: if_splits)

lemma find_str_first: "find_str s p = Some i \<Longrightarrow> j < i \<Longrightarrow> \<not> prefix p (drop j s)"
proof (induction s arbitrary: i j)
  case Nil
  then show ?case by (simp split: if_splits)
next
  case (Cons c s)
  then show ?case by (cases j) (auto split: if_splits)
qed

lemma find_str_None: "find_str s p = None \<longleftrightarrow> \<not> contains s p"
  by (induction s) auto

lemma trim_end_char_decomp:
  "\<exists>n. s = trim_end_char c s @ replicate n c \<and>
       (trim_end_char c s = [] \<or> last (trim_end_char c s) \<noteq> c)"
proof -
  let ?t = "takeWhile ((=) c) (rev s)" and ?d = "dropWhile ((=) c) (rev s)"
  have "?t = replicate (length ?t) c"
    by (rule replicate_eqI [symmetric, THEN sym]) (auto dest: set_takeWhileD)
  moreover have "s = rev ?d @ rev ?t"
    by (metis rev_append rev_rev_ident takeWhile_dropWhile_id)
  ultimately have "s = trim_end_char c s @ replicate (length ?t) c"
    by (metis rev_replicate trim_end_char_def)
  moreover have "?d = [] \<or> hd ?d \<noteq> c"
    using hd_dropWhile [of "(=) c" "rev s"] by metis
  ultimately show ?thesis
    by (auto simp: trim_end_char_def last_rev)
qed

lemma trim_end_char_idem [simp]: "trim_end_char c (trim_end_char c s) = trim_end_char c s"
proof -
  have "dropWhile ((=) c) (dropWhile ((=) c) xs) = dropWhile ((=) c) xs" for xs
    by (induction xs) auto
  then show ?thesis by (simp add: trim_end_char_def)
qed

lemma rsplit_once_Some:
  "rsplit_once c s = Some (a, b) \<longleftrightarrow> s = a @ c # b \<and> c \<notin> set b"
proof
  assume h: "rsplit_once c s = Some (a, b)"
  then have c: "c \<in> set (rev s)" by (auto simp: rsplit_once_def split: if_splits)
  let ?d = "dropWhile ((\<noteq>) c) (rev s)"
  have "?d \<noteq> []" using c by (auto simp: dropWhile_eq_Nil_conv)
  then have "?d = c # tl ?d"
    using hd_dropWhile [of "(\<noteq>) c" "rev s"] by (cases ?d) auto
  then have "rev s = takeWhile ((\<noteq>) c) (rev s) @ c # tl ?d"
    by (metis takeWhile_dropWhile_id)
  then have "s = rev (tl ?d) @ c # rev (takeWhile ((\<noteq>) c) (rev s))"
    by (metis append.assoc append_Cons append_Nil rev.simps(2) rev_append rev_rev_ident)
  moreover have "c \<notin> set (takeWhile ((\<noteq>) c) (rev s))"
    by (auto dest: set_takeWhileD)
  ultimately show "s = a @ c # b \<and> c \<notin> set b"
    using h c by (auto simp: rsplit_once_def)
next
  assume "s = a @ c # b \<and> c \<notin> set b"
  moreover from this have "takeWhile ((\<noteq>) c) (rev b @ c # rev a) = rev b"
    and "dropWhile ((\<noteq>) c) (rev b @ c # rev a) = c # rev a"
    by (auto simp: takeWhile_append dropWhile_append)
  ultimately show "rsplit_once c s = Some (a, b)" by (simp add: rsplit_once_def)
qed

lemma rsplit_once_None: "rsplit_once c s = None \<longleftrightarrow> c \<notin> set s"
  by (simp add: rsplit_once_def)

subsection \<open>Printing\<close>

text \<open>\<^verbatim>\<open>Display\<close> of unsigned integers and of \<^verbatim>\<open>bool\<close>.\<close>

definition digit_char :: "nat \<Rightarrow> char" where
  "digit_char d = char_of (48 + d)"

fun show_nat :: "nat \<Rightarrow> string" where
  "show_nat n = (if n < 10 then [digit_char n] else show_nat (n div 10) @ [digit_char (n mod 10)])"

declare show_nat.simps [simp del]

definition show_bool :: "bool \<Rightarrow> string" where
  "show_bool b = (if b then ''true'' else ''false'')"

definition digit_val :: "char \<Rightarrow> nat" where
  "digit_val c = of_char c - 48"

definition read_nat :: "string \<Rightarrow> nat" where
  "read_nat s = foldl (\<lambda>n c. 10 * n + digit_val c) 0 s"

lemma digit_val_char [simp]: "d < 10 \<Longrightarrow> digit_val (digit_char d) = d"
  by (simp add: digit_val_def digit_char_def)

lemma read_show_nat [simp]: "read_nat (show_nat n) = n"
proof (induction n rule: show_nat.induct)
  case (1 n)
  show ?case
  proof (cases "n < 10")
    case True
    then show ?thesis by (simp add: show_nat.simps [of n] read_nat_def)
  next
    case False
    with "1.IH" have "read_nat (show_nat (n div 10)) = n div 10" by simp
    with False show ?thesis by (simp add: show_nat.simps [of n] read_nat_def)
  qed
qed

lemma show_nat_inject [simp]: "show_nat m = show_nat n \<longleftrightarrow> m = n"
  by (metis read_show_nat)

lemma show_bool_inject [simp]: "show_bool a = show_bool b \<longleftrightarrow> a = b"
  by (simp add: show_bool_def)

subsection \<open>Fallible calls in sequence\<close>

text \<open>
  The question mark of the source in code that also changes the world: go on with the value, or answer
  the error in the world reached so far; and the question mark in code that does not.
\<close>

definition and_then :: "('e + 'a) \<times> 'w \<Rightarrow> ('a \<Rightarrow> 'w \<Rightarrow> ('e + 'b) \<times> 'w) \<Rightarrow> ('e + 'b) \<times> 'w" where
  "and_then r k = (case r of (Inl e, w) \<Rightarrow> (Inl e, w) | (Inr a, w) \<Rightarrow> k a w)"

definition and_try :: "('e + 'a) \<Rightarrow> ('a \<Rightarrow> 'e + 'b) \<Rightarrow> 'e + 'b" where
  "and_try r k = (case r of Inl e \<Rightarrow> Inl e | Inr a \<Rightarrow> k a)"

lemma and_then_simps [simp]:
  "and_then (Inl e, w) k = (Inl e, w)" "and_then (Inr a, w) k = k a w"
  by (simp_all add: and_then_def)

lemma and_try_simps [simp]: "and_try (Inl e) k = Inl e" "and_try (Inr a) k' = k' a"
  by (simp_all add: and_try_def)

lemma and_then_Inr:
  "and_then r k = (Inr b, w') \<longleftrightarrow> (\<exists>a w. r = (Inr a, w) \<and> k a w = (Inr b, w'))"
  by (auto simp: and_then_def split: prod.splits sum.splits)

lemma and_then_Inl:
  "and_then r k = (Inl e, w') \<longleftrightarrow> r = (Inl e, w') \<or> (\<exists>a w. r = (Inr a, w) \<and> k a w = (Inl e, w'))"
  by (auto simp: and_then_def split: prod.splits sum.splits)

lemma and_try_Inr: "and_try r k = Inr b \<longleftrightarrow> (\<exists>a. r = Inr a \<and> k a = Inr b)"
  by (cases r) auto

subsection \<open>Durations and instants\<close>

text \<open>
  \<^verbatim>\<open>Duration\<close> and \<^verbatim>\<open>Instant\<close> in nanoseconds. \<^verbatim>\<open>Instant::elapsed\<close> saturates at zero, as the
  subtraction of \<^typ>\<open>nat\<close> does; \<^verbatim>\<open>Duration::MAX\<close> is \<open>2 ^ 64 - 1\<close> seconds and 999999999
  nanoseconds.
\<close>

type_synonym duration = nat
type_synonym instant = nat

definition from_secs :: "nat \<Rightarrow> duration" where
  "from_secs n = n * 1000000000"

definition from_millis :: "nat \<Rightarrow> duration" where
  "from_millis n = n * 1000000"

definition as_secs :: "duration \<Rightarrow> nat" where
  "as_secs d = d div 1000000000"

definition duration_max :: duration where
  "duration_max = (2 ^ 64 - 1) * 1000000000 + 999999999"

definition saturating_mul :: "duration \<Rightarrow> nat \<Rightarrow> duration" where
  "saturating_mul d n = min (d * n) duration_max"

lemma as_secs_from_secs [simp, time_simps]: "as_secs (from_secs n) = n"
  by (simp add: as_secs_def from_secs_def)

lemma from_secs_mono [simp, time_simps]: "from_secs m \<le> from_secs n \<longleftrightarrow> m \<le> n"
  by (simp add: from_secs_def)

lemma from_secs_less [simp, time_simps]: "from_secs m < from_secs n \<longleftrightarrow> m < n"
  by (simp add: from_secs_def)

lemma from_secs_inject [simp, time_simps]: "from_secs m = from_secs n \<longleftrightarrow> m = n"
  by (simp add: from_secs_def)

lemma from_secs_add [time_simps]: "from_secs (m + n) = from_secs m + from_secs n"
  by (simp add: from_secs_def algebra_simps)

subsection \<open>Withdrawing an entry\<close>

text \<open>
  The contract behind cancelling, signing out and stopping: what is absent from shared state is not
  brought back by what other calls do; \<open>other\<close> is one step of those calls. With an operation that
  withdraws an entry whatever the state, the entry stays out after it.
\<close>

locale absence =
  fixes present :: "'s \<Rightarrow> bool" and other :: "'s \<Rightarrow> 's \<Rightarrow> bool"
  assumes others_keep_out: "other s s' \<Longrightarrow> \<not> present s \<Longrightarrow> \<not> present s'"
begin

lemma stays_absent: "other\<^sup>*\<^sup>* s s' \<Longrightarrow> \<not> present s \<Longrightarrow> \<not> present s'"
  by (induction rule: rtranclp_induct) (auto dest: others_keep_out)

end

locale withdrawal = absence +
  fixes withdraw :: "'a \<Rightarrow> 'a"
  assumes withdrawn: "\<not> present (withdraw s)"
begin

lemma stays_withdrawn: "other\<^sup>*\<^sup>* (withdraw s) s' \<Longrightarrow> \<not> present s'"
  using stays_absent withdrawn by blast

lemma withdraw_again: "\<not> present s \<Longrightarrow> \<not> present (withdraw s)"
  by (simp add: withdrawn)

end

end
