(* ===== verification/Sdk_Errors.thy ===== *)
theory Sdk_Errors
  imports Prelude
begin

section \<open>Errors: what the SDK reports and what the bindings hand on\<close>

text \<open>
  Models \<^verbatim>\<open>src/binding_error.rs\<close> and \<^verbatim>\<open>full_error_chain\<close> of \<^verbatim>\<open>src/lib.rs\<close>.

  The errors of the \<^verbatim>\<open>pubky\<close> SDK and of \<^verbatim>\<open>reqwest\<close> are values of code outside the repository.
  They enter as records of exactly what the source observes of them: the \<^verbatim>\<open>Display\<close> text, the
  texts along \<^verbatim>\<open>source()\<close>, the variant, the HTTP status, the failing URL, and the flags
  \<^verbatim>\<open>is_connect\<close>, \<^verbatim>\<open>is_retryable\<close> and \<^verbatim>\<open>RequestExpired\<close>. Every theorem holds for all such values.
\<close>

record std_error =
  display :: string
  sources :: "string list"

record reqwest_error = std_error +
  err_url :: "string option"
  is_connect :: bool

record pkarr_error = std_error +
  is_retryable :: bool

record auth_error = std_error +
  request_expired :: bool

datatype request_error =
    ReqTransport reqwest_error
  | ReqServer u16 string
  | ReqValidation string
  | ReqDecodeJson string

datatype pubky_error =
    Request request_error
  | Pkarr pkarr_error
  | Parse std_error
  | Authentication auth_error
  | Build std_error

record sdk_error = std_error +
  variant :: pubky_error

subsection \<open>The error chain\<close>

text \<open>
  The loop of \<^verbatim>\<open>full_error_chain\<close>: \<open>out\<close> is the message so far, the list is what \<^verbatim>\<open>source()\<close>
  still yields.
\<close>

fun chain_from :: "string \<Rightarrow> string list \<Rightarrow> string" where
  "chain_from out [] = out"
| "chain_from out (text # rest) =
     chain_from (if contains out text then out else out @ '': '' @ text) rest"

definition full_error_chain :: "'a std_error_scheme \<Rightarrow> string" where
  "full_error_chain e = chain_from (display e) (sources e)"

lemma chain_from_prefix: "prefix out (chain_from out ts)"
proof (induction ts arbitrary: out)
  case Nil
  then show ?case by simp
next
  case (Cons t ts)
  show ?case
    using Cons [of "if contains out t then out else out @ '': '' @ t"]
    by (auto split: if_splits dest: append_prefixD)
qed

lemma chain_from_contains: "t \<in> set ts \<Longrightarrow> contains (chain_from out ts) t"
proof (induction ts arbitrary: out)
  case Nil
  then show ?case by simp
next
  case (Cons u ts)
  show ?case
  proof (cases "t = u")
    case True
    let ?out = "if contains out u then out else out @ '': '' @ u"
    have "contains ?out u"
      using contains_append_left [OF contains_refl, of "out @ '': ''" u] by simp
    moreover obtain z where "chain_from ?out ts = ?out @ z"
      using chain_from_prefix [of ?out ts] by (auto simp: prefix_def)
    ultimately show ?thesis
      using True contains_append_right [of ?out u z] by simp
  next
    case False
    with Cons show ?thesis by simp
  qed
qed

lemma chain_from_known: "\<forall>t\<in>set ts. contains out t \<Longrightarrow> chain_from out ts = out"
  by (induction ts) auto

lemma chain_from_length: "length (chain_from out ts) \<le> length out + (\<Sum>t\<leftarrow>ts. length t + 2)"
proof (induction ts arbitrary: out)
  case Nil
  then show ?case by simp
next
  case (Cons t ts)
  show ?case
    using Cons [of "if contains out t then out else out @ '': '' @ t"] by (auto split: if_splits)
qed

subsection \<open>The typed binding error\<close>

datatype pubky_core_error =
    Transport string
  | Server u16 string
  | Validation string
  | DecodeJson string
  | PkarrFailed string bool
  | ParseFailed string
  | AuthenticationFailed string bool
  | BuildFailed string
  | State string

definition show_u16 :: "u16 \<Rightarrow> string" where
  "show_u16 w = show_nat (unat w)"

fun core_display :: "pubky_core_error \<Rightarrow> string" where
  "core_display (Transport details) = ''HTTP transport error: '' @ details"
| "core_display (Server status details) =
     ''Server responded with '' @ show_u16 status @ '': '' @ details"
| "core_display (Validation details) = ''Invalid request: '' @ details"
| "core_display (DecodeJson details) = ''Failed to decode response JSON: '' @ details"
| "core_display (PkarrFailed details retryable) = ''PKARR operation failed: '' @ details"
| "core_display (ParseFailed details) = ''Failed to parse URL: '' @ details"
| "core_display (AuthenticationFailed details expired) = ''Authentication failed: '' @ details"
| "core_display (BuildFailed details) = ''Client construction failed: '' @ details"
| "core_display (State details) = ''Binding state error: '' @ details"

definition from_reqwest_error :: "'a std_error_scheme \<Rightarrow> pubky_core_error" where
  "from_reqwest_error e = Transport (display e)"

fun from_request_error :: "request_error \<Rightarrow> pubky_core_error" where
  "from_request_error (ReqTransport e) = Transport (display e)"
| "from_request_error (ReqServer status message) = Server status message"
| "from_request_error (ReqValidation message) = Validation message"
| "from_request_error (ReqDecodeJson message) = DecodeJson message"

definition from_pkarr_error :: "pkarr_error \<Rightarrow> pubky_core_error" where
  "from_pkarr_error e = PkarrFailed (display e) (is_retryable e)"

definition from_auth_error :: "auth_error \<Rightarrow> pubky_core_error" where
  "from_auth_error e = AuthenticationFailed (display e) (request_expired e)"

definition from_build_error :: "'a std_error_scheme \<Rightarrow> pubky_core_error" where
  "from_build_error e = BuildFailed (display e)"

definition from_serde_error :: "'a std_error_scheme \<Rightarrow> pubky_core_error" where
  "from_serde_error e = DecodeJson (display e)"

fun from_pubky_error :: "pubky_error \<Rightarrow> pubky_core_error" where
  "from_pubky_error (Request e) = from_request_error e"
| "from_pubky_error (Pkarr e) = from_pkarr_error e"
| "from_pubky_error (Parse e) = ParseFailed (display e)"
| "from_pubky_error (Authentication e) = from_auth_error e"
| "from_pubky_error (Build e) = from_build_error e"

definition from_sdk_error :: "sdk_error \<Rightarrow> pubky_core_error" where
  "from_sdk_error e = from_pubky_error (variant e)"

lemmas from_error_defs = from_reqwest_error_def from_pkarr_error_def from_auth_error_def
  from_build_error_def from_serde_error_def from_sdk_error_def

subsection \<open>Client ids\<close>

text \<open>\<^verbatim>\<open>ClientId::new\<close> is SDK code: the parameter answers the client id in its textual form, or an error text.\<close>

definition parse_client_id :: "(string \<Rightarrow> string result) \<Rightarrow> string \<Rightarrow> string result" where
  "parse_client_id client_id_new client_id =
     (case client_id_new client_id of
        Inl msg \<Rightarrow> Inl (''Invalid client_id: '' @ msg)
      | Inr c \<Rightarrow> Inr c)"

end
