(* ===== verification/Event_Streams.thy ===== *)
theory Event_Streams
  imports Sdk_Errors
begin

section \<open>Event streams\<close>

text \<open>
  Models \<^verbatim>\<open>src/events.rs\<close> and the records it uses from \<^verbatim>\<open>src/types.rs\<close>: starting a subscription, pumping
  its events into the host's listener, and stopping it.

  The SDK's \<^verbatim>\<open>EventStreamBuilder\<close> is driven by the list of calls made on it; whether \<^verbatim>\<open>add_users\<close>
  accepts, and what \<^verbatim>\<open>subscribe\<close> answers, are parameters. A stream is the list of what it yields before it
  ends. The listener's callbacks are host code: parameters that act on the whole world, registry
  included, and may throw (answer \<^term>\<open>True\<close>). Tasks are handles \<open>'h\<close>.

  \<open>pump\<close> is a task that runs to its end. A task that is aborted by a stop, which drops its guard without a last
  call of the listener, is not part of \<open>pump\<close> but of the step relation \<open>stream_step\<close>.
\<close>

subsection \<open>Data\<close>

record event_stream_user =
  user_key :: string
  user_cursor :: "u64 option"

record event_stream_config =
  es_users :: "event_stream_user list"
  es_homeserver :: "string option"
  es_paths :: "string list"
  es_limit :: "u16 option"
  es_max_event_bytes :: "u64 option"
  es_live :: bool
  es_reverse :: bool
  es_session_secret :: "string option"

record storage_event =
  event_type :: string
  event_resource :: string
  event_cursor :: u64
  content_hash :: "string option"

datatype 's builder_call =
    ForHomeserver string
  | ForUser string "u64 option"
  | AddUsers "(string \<times> u64 option) list"
  | Path string
  | Limit u16
  | MaxEventBytes nat
  | Live
  | Reverse
  | WithSession 's

record ('h, 'v) streams_world =
  EVENT_STREAM_SEQUENCE :: u64
  EVENT_STREAM_TASKS :: "'h hmap"
  streams_rest :: 'v

record ('h, 's, 'w) streams_env =
  public_key_try_from :: "string \<Rightarrow> string result"
  usize_max :: nat
  add_users_check :: "'s builder_call list \<Rightarrow> (sdk_error + unit)"
  restore_session :: "string \<Rightarrow> 'w \<Rightarrow> (sdk_error + 's) \<times> 'w"
  subscribe :: "'s builder_call list \<Rightarrow> 'w \<Rightarrow> (sdk_error + (sdk_error + storage_event) list) \<times> 'w"
  spawn_pump :: "(string + storage_event) list \<Rightarrow> string \<Rightarrow> 'w \<Rightarrow> 'h \<times> 'w"
  abort :: "'h \<Rightarrow> 'w \<Rightarrow> 'w"

subsection \<open>Starting a stream\<close>

definition parse_public_key ::
  "(string \<Rightarrow> string result) \<Rightarrow> string \<Rightarrow> string \<Rightarrow> pubky_core_error + string" where
  "parse_public_key try_from v label =
     (case try_from v of
        Inl e \<Rightarrow> Inl (Validation (''invalid '' @ label @ '' public key: '' @ e))
      | Inr k \<Rightarrow> Inr k)"

text \<open>The users in order; the first one that does not parse is the error.\<close>

fun parse_users ::
  "(string \<Rightarrow> string result) \<Rightarrow> event_stream_user list \<Rightarrow> pubky_core_error + (string \<times> u64 option) list" where
  "parse_users try_from [] = Inr []"
| "parse_users try_from (u # us) =
     (case parse_public_key try_from (user_key u) ''user'' of
        Inl e \<Rightarrow> Inl e
      | Inr k \<Rightarrow> (case parse_users try_from us of Inl e \<Rightarrow> Inl e | Inr ks \<Rightarrow> Inr ((k, user_cursor u) # ks)))"

definition with_users ::
  "('h, 's, 'w) streams_env \<Rightarrow> 's builder_call list \<Rightarrow> (string \<times> u64 option) list \<Rightarrow>
   pubky_core_error + 's builder_call list" where
  "with_users E calls us =
     (let calls = calls @ [AddUsers us] in
      case add_users_check E calls of Inl e \<Rightarrow> Inl (from_sdk_error e) | Inr _ \<Rightarrow> Inr calls)"

definition open_builder ::
  "('h, 's, 'w) streams_env \<Rightarrow> string option \<Rightarrow> (string \<times> u64 option) list \<Rightarrow>
   pubky_core_error + 's builder_call list" where
  "open_builder E homeserver users =
     (case homeserver of
        Some h \<Rightarrow>
          (case parse_public_key (public_key_try_from E) h ''homeserver'' of
             Inl e \<Rightarrow> Inl e
           | Inr hk \<Rightarrow> with_users E [ForHomeserver hk] users)
      | None \<Rightarrow> with_users E [ForUser (fst (hd users)) (snd (hd users))] (tl users))"

definition tune_builder ::
  "('h, 's, 'w) streams_env \<Rightarrow> event_stream_config \<Rightarrow> 's builder_call list \<Rightarrow>
   pubky_core_error + 's builder_call list" where
  "tune_builder E cfg calls =
     (let calls = calls @ map Path (es_paths cfg) @
                  (case es_limit cfg of None \<Rightarrow> [] | Some n \<Rightarrow> [Limit n]) in
      case (case es_max_event_bytes cfg of
              None \<Rightarrow> Inr calls
            | Some n \<Rightarrow> if unat n > usize_max E
                        then Inl (Validation ''max_event_bytes exceeds the platform limit'')
                        else Inr (calls @ [MaxEventBytes (unat n)])) of
        Inl e \<Rightarrow> Inl e
      | Inr calls \<Rightarrow> Inr (calls @ (if es_live cfg then [Live] else []) @ (if es_reverse cfg then [Reverse] else [])))"

definition open_session ::
  "('h, 's, 'w) streams_env \<Rightarrow> event_stream_config \<Rightarrow> 's builder_call list \<Rightarrow> 'w \<Rightarrow>
   (pubky_core_error + 's builder_call list) \<times> 'w" where
  "open_session E cfg calls w =
     (case es_session_secret cfg of
        None \<Rightarrow> (Inr calls, w)
      | Some secret \<Rightarrow>
          (case restore_session E secret w of
             (Inl e, w) \<Rightarrow> (Inl (from_sdk_error e), w)
           | (Inr s, w) \<Rightarrow> (Inr (calls @ [WithSession s]), w)))"

definition stream_id :: "u64 \<Rightarrow> string" where
  "stream_id n = ''event-stream-'' @ show_nat (unat n)"

definition register_stream ::
  "('h, 's, ('h, 'v) streams_world) streams_env \<Rightarrow> (sdk_error + storage_event) list \<Rightarrow>
   ('h, 'v) streams_world \<Rightarrow> string \<times> ('h, 'v) streams_world" where
  "register_stream E items w =
     (let sid = stream_id (EVENT_STREAM_SEQUENCE w);
          w = w\<lparr>EVENT_STREAM_SEQUENCE := EVENT_STREAM_SEQUENCE w + 1\<rparr> in
      case spawn_pump E (map (map_sum display (\<lambda>e. e)) items) sid w of
        (task, w) \<Rightarrow> (sid, w\<lparr>EVENT_STREAM_TASKS := hm_insert sid task (EVENT_STREAM_TASKS w)\<rparr>))"

definition start_event_stream ::
  "('h, 's, ('h, 'v) streams_world) streams_env \<Rightarrow> event_stream_config \<Rightarrow> ('h, 'v) streams_world \<Rightarrow>
   (pubky_core_error + string) \<times> ('h, 'v) streams_world" where
  "start_event_stream E cfg w =
     (if es_users cfg = [] then (Inl (Validation ''at least one event-stream user is required''), w)
      else case parse_users (public_key_try_from E) (es_users cfg) of
        Inl e \<Rightarrow> (Inl e, w)
      | Inr users \<Rightarrow>
     (case open_builder E (es_homeserver cfg) users of
        Inl e \<Rightarrow> (Inl e, w)
      | Inr calls \<Rightarrow>
     (case tune_builder E cfg calls of
        Inl e \<Rightarrow> (Inl e, w)
      | Inr calls \<Rightarrow>
     (case open_session E cfg calls w of
        (Inl e, w) \<Rightarrow> (Inl e, w)
      | (Inr calls, w) \<Rightarrow>
     (case subscribe E calls w of
        (Inl e, w) \<Rightarrow> (Inl (from_sdk_error e), w)
      | (Inr items, w) \<Rightarrow> (case register_stream E items w of (sid, w) \<Rightarrow> (Inr sid, w)))))))"

subsection \<open>Pumping and stopping\<close>

record 'w listener =
  on_event :: "storage_event \<Rightarrow> 'w \<Rightarrow> bool \<times> 'w"
  on_error :: "string \<Rightarrow> 'w \<Rightarrow> bool \<times> 'w"
  on_complete :: "'w \<Rightarrow> bool \<times> 'w"

definition unregister :: "string \<Rightarrow> ('h, 'v) streams_world \<Rightarrow> ('h, 'v) streams_world" where
  "unregister sid w = w\<lparr>EVENT_STREAM_TASKS := hm_remove sid (EVENT_STREAM_TASKS w)\<rparr>"

text \<open>The body of \<^verbatim>\<open>pump\<close>; \<^verbatim>\<open>catch_unwind\<close> turns a throwing callback into the flag it answers.\<close>

fun pump_loop :: "'w listener \<Rightarrow> (string + storage_event) list \<Rightarrow> 'w \<Rightarrow> 'w" where
  "pump_loop L [] w = snd (on_complete L w)"
| "pump_loop L (Inl e # items) w = snd (on_error L e w)"
| "pump_loop L (Inr ev # items) w =
     (case on_event L ev w of
        (threw, w) \<Rightarrow>
          if threw then snd (on_error L ''event listener threw; the stream is stopped'' w)
          else pump_loop L items w)"

text \<open>The guard \<^verbatim>\<open>Registered\<close> is dropped last, on every way out.\<close>

definition pump ::
  "('h, 'v) streams_world listener \<Rightarrow> (string + storage_event) list \<Rightarrow> string \<Rightarrow>
   ('h, 'v) streams_world \<Rightarrow> ('h, 'v) streams_world" where
  "pump L items sid w = unregister sid (pump_loop L items w)"

definition stop_event_stream ::
  "('h, 's, ('h, 'v) streams_world) streams_env \<Rightarrow> string \<Rightarrow> ('h, 'v) streams_world \<Rightarrow>
   bool \<times> ('h, 'v) streams_world" where
  "stop_event_stream E sid w =
     (case hm_get (EVENT_STREAM_TASKS w) sid of
        Some task \<Rightarrow> (True, abort E task (unregister sid w))
      | None \<Rightarrow> (False, w))"

definition stop_all_event_streams ::
  "('h, 's, ('h, 'v) streams_world) streams_env \<Rightarrow> ('h, 'v) streams_world \<Rightarrow> u64 \<times> ('h, 'v) streams_world" where
  "stop_all_event_streams E w =
     (of_nat (length (EVENT_STREAM_TASKS w)),
      fold (\<lambda>x. abort E (snd x)) (EVENT_STREAM_TASKS w) (w\<lparr>EVENT_STREAM_TASKS := []\<rparr>))"


subsection \<open>What the listener sees\<close>

datatype callback = OnEvent storage_event | OnError string | OnComplete

text \<open>A listener that writes down every call it gets and throws on the events \<open>throws\<close> says.\<close>

definition recorder :: "(storage_event \<Rightarrow> bool) \<Rightarrow> ('h, callback list) streams_world listener" where
  "recorder throws =
     \<lparr>on_event = \<lambda>ev w. (throws ev, w\<lparr>streams_rest := streams_rest w @ [OnEvent ev]\<rparr>),
      on_error = \<lambda>msg w. (False, w\<lparr>streams_rest := streams_rest w @ [OnError msg]\<rparr>),
      on_complete = \<lambda>w. (False, w\<lparr>streams_rest := streams_rest w @ [OnComplete]\<rparr>)\<rparr>"

definition listener_threw :: string where
  "listener_threw = ''event listener threw; the stream is stopped''"

text \<open>
  How a run may end: \<open>evs\<close> are the events delivered, \<open>last_call\<close> the one call after them.
\<close>

definition run_of ::
  "(storage_event \<Rightarrow> bool) \<Rightarrow> (string + storage_event) list \<Rightarrow> storage_event list \<Rightarrow> callback \<Rightarrow> bool" where
  "run_of throws items evs last_call \<longleftrightarrow>
     (last_call = OnComplete \<and> items = map Inr evs \<and> (\<forall>ev\<in>set evs. \<not> throws ev)) \<or>
     (\<exists>e unread. last_call = OnError e \<and> items = map Inr evs @ Inl e # unread \<and> (\<forall>ev\<in>set evs. \<not> throws ev)) \<or>
     (\<exists>ok ev unread. last_call = OnError listener_threw \<and> evs = ok @ [ev] \<and> throws ev \<and>
        (\<forall>x\<in>set ok. \<not> throws x) \<and> items = map Inr evs @ unread)"

lemma run_of_Cons: "run_of throws items evs c \<Longrightarrow> \<not> throws ev \<Longrightarrow> run_of throws (Inr ev # items) (ev # evs) c"
  unfolding run_of_def by (elim disjE exE conjE) (force simp: Cons_eq_append_conv)+

lemma pump_loop_run:
  "\<exists>evs c. run_of throws items evs c \<and>
     pump_loop (recorder throws) items w = w\<lparr>streams_rest := streams_rest w @ map OnEvent evs @ [c]\<rparr>"
proof (induction items arbitrary: w)
  case Nil
  show ?case by (rule exI [of _ "[]"]) (auto simp: run_of_def recorder_def)
next
  case (Cons x items)
  show ?case
  proof (cases x)
    case (Inl e)
    then show ?thesis
      by (intro exI [of _ "[]"] exI [of _ "OnError e"]) (auto simp: run_of_def recorder_def)
  next
    case (Inr ev)
    let ?w = "w\<lparr>streams_rest := streams_rest w @ [OnEvent ev]\<rparr>"
    show ?thesis
    proof (cases "throws ev")
      case True
      then show ?thesis
        by (intro exI [of _ "[ev]"] exI [of _ "OnError listener_threw"])
          (auto simp: Inr run_of_def recorder_def listener_threw_def)
    next
      case False
      obtain evs c where "run_of throws items evs c"
        "pump_loop (recorder throws) items ?w = ?w\<lparr>streams_rest := streams_rest ?w @ map OnEvent evs @ [c]\<rparr>"
        using Cons by blast
      with False show ?thesis
        by (intro exI [of _ "ev # evs"] exI [of _ c]) (auto simp: Inr recorder_def intro: run_of_Cons)
    qed
  qed
qed

subsection \<open>Stream ids\<close>

text \<open>Every registered stream carries a number that was already handed out.\<close>

definition streams_inv :: "('h, 'v) streams_world \<Rightarrow> bool" where
  "streams_inv w \<longleftrightarrow>
     (\<forall>k\<in>set (hm_keys (EVENT_STREAM_TASKS w)). \<exists>n < unat (EVENT_STREAM_SEQUENCE w). k = ''event-stream-'' @ show_nat n)"

lemma stream_id_fresh: "streams_inv w \<Longrightarrow> hm_get (EVENT_STREAM_TASKS w) (stream_id (EVENT_STREAM_SEQUENCE w)) = None"
  by (force simp: streams_inv_def stream_id_def hm_get_def map_of_eq_None_iff)

lemma unat_Suc_u64: "Suc (unat (n :: u64)) < 2 ^ 64 \<Longrightarrow> unat (n + 1) = Suc (unat n)"
  by (simp add: unat_word_ariths)

subsection \<open>Properties\<close>

text \<open>
  C23 (safety). However a stream ends, its entry is freed and the listener is told exactly once, last:
  completion after every event was taken, the stream's error at the first item that is one, or, when the
  listener throws, that it threw; events arrive in order, none is skipped, and none follows the end.
\<close>

theorem pump_reports_once_and_frees_entry:
  "\<exists>evs last_call. run_of throws items evs last_call \<and>
     streams_rest (pump (recorder throws) items sid w) = streams_rest w @ map OnEvent evs @ [last_call] \<and>
     EVENT_STREAM_TASKS (pump (recorder throws) items sid w) = hm_remove sid (EVENT_STREAM_TASKS w)"
  using pump_loop_run [of throws items w] by (auto simp: pump_def unregister_def)

text \<open>
  Registering a stream never replaces another: until the 64-bit sequence wraps, the
  new id is not in use, the new task is found under it, every other task stays where it was, and the
  numbering stays in order; and unregistering keeps it in order too.
\<close>

theorem stream_ids_never_collide:
  assumes "streams_inv w" and "Suc (unat (EVENT_STREAM_SEQUENCE w)) < 2 ^ 64"
    and "\<And>items sid v. EVENT_STREAM_TASKS (snd (spawn_pump E items sid v)) = EVENT_STREAM_TASKS v \<and>
           EVENT_STREAM_SEQUENCE (snd (spawn_pump E items sid v)) = EVENT_STREAM_SEQUENCE v"
    and "register_stream E items w = (sid, w')"
  shows "hm_get (EVENT_STREAM_TASKS w) sid = None \<and> hm_contains (EVENT_STREAM_TASKS w') sid \<and>
    (\<forall>k. k \<noteq> sid \<longrightarrow> hm_get (EVENT_STREAM_TASKS w') k = hm_get (EVENT_STREAM_TASKS w) k) \<and>
    streams_inv w' \<and> streams_inv (unregister k w')"
proof -
  let ?w = "w\<lparr>EVENT_STREAM_SEQUENCE := EVENT_STREAM_SEQUENCE w + 1\<rparr>"
  obtain t v where tv: "spawn_pump E (map (map_sum display (\<lambda>e. e)) items) (stream_id (EVENT_STREAM_SEQUENCE w)) ?w = (t, v)"
    by fastforce
  then have v: "EVENT_STREAM_TASKS v = EVENT_STREAM_TASKS w" "EVENT_STREAM_SEQUENCE v = EVENT_STREAM_SEQUENCE w + 1"
    using assms(3) [of "map (map_sum display (\<lambda>e. e)) items" "stream_id (EVENT_STREAM_SEQUENCE w)" ?w] by simp_all
  have sid: "sid = stream_id (EVENT_STREAM_SEQUENCE w)"
    and w': "w' = v\<lparr>EVENT_STREAM_TASKS := hm_insert sid t (EVENT_STREAM_TASKS w)\<rparr>"
    using assms(4) tv v by (auto simp: register_stream_def Let_def)
  have "streams_inv w'"
    using assms(1) unat_Suc_u64 [OF assms(2)]
    by (auto simp: streams_inv_def w' v hm_keys_insert [simplified] sid stream_id_def less_Suc_eq)
  moreover from this have "streams_inv (unregister k w')"
    by (auto simp: streams_inv_def unregister_def hm_remove_filter)
  ultimately show ?thesis
    using stream_id_fresh [OF assms(1)] by (simp add: sid w')
qed

theorem stream_ids_never_collide_witness:
  "let E = \<lparr>public_key_try_from = Inr, usize_max = 10, add_users_check = \<lambda>_. Inr (),
            restore_session = \<lambda>_ w. (Inr (), w), subscribe = \<lambda>_ w. (Inr [], w),
            spawn_pump = \<lambda>_ _ w. (7, w), abort = \<lambda>_ w. w\<rparr> ::
              (nat, unit, (nat, unit) streams_world) streams_env;
       w = \<lparr>EVENT_STREAM_SEQUENCE = 2, EVENT_STREAM_TASKS = [(''event-stream-1'', 3)], streams_rest = ()\<rparr>;
       (sid, w') = register_stream E [] w
   in hm_get (EVENT_STREAM_TASKS w) sid = None \<and> hm_get (EVENT_STREAM_TASKS w') ''event-stream-1'' = Some 3"
proof -
  let ?E = "\<lparr>public_key_try_from = Inr, usize_max = 10, add_users_check = \<lambda>_. Inr (),
            restore_session = \<lambda>_ w. (Inr (), w), subscribe = \<lambda>_ w. (Inr [], w),
            spawn_pump = \<lambda>_ _ w. (7, w), abort = \<lambda>_ w. w\<rparr> ::
              (nat, unit, (nat, unit) streams_world) streams_env"
  let ?w = "\<lparr>EVENT_STREAM_SEQUENCE = 2, EVENT_STREAM_TASKS = [(''event-stream-1'', 3)], streams_rest = ()\<rparr>"
  have one: "show_nat 1 = ''1''" and two: "show_nat 2 = ''2''" by code_simp+
  have inv: "streams_inv ?w" using one by (auto simp: streams_inv_def intro!: exI [of _ 1])
  obtain sid w' where r: "register_stream ?E [] ?w = (sid, w')" by fastforce
  then have "sid = ''event-stream-2''" by (simp add: register_stream_def stream_id_def two Let_def)
  then show ?thesis
    using stream_ids_never_collide [OF inv _ _ r] r by (simp add: hm_get_def)
qed


subsection \<open>Streams that start, end and are stopped at once\<close>

text \<open>
  The steps of \<^verbatim>\<open>start_event_stream\<close>, of the spawned tasks and of the two stop calls, as threads interleave
  them. A task is spawned before it is listed and waits for the start signal, which is sent after it is
  listed; a running task unlists itself when it ends; a stop unlists and aborts a task, which may still run
  for a while and drops its guard later. The sequence is followed up to its last number, where it would wrap.
\<close>

datatype phase = Spawned | Listed | Running | Stopping | Ended

inductive stream_step ::
  "('h, 'v) streams_world \<times> (string \<rightharpoonup> phase) \<Rightarrow> ('h, 'v) streams_world \<times> (string \<rightharpoonup> phase) \<Rightarrow> bool" where
  spawns: "Suc (unat (EVENT_STREAM_SEQUENCE w)) < 2 ^ 64 \<Longrightarrow>
    stream_step (w, ph) (w\<lparr>EVENT_STREAM_SEQUENCE := EVENT_STREAM_SEQUENCE w + 1\<rparr>,
      ph(stream_id (EVENT_STREAM_SEQUENCE w) \<mapsto> Spawned))"
| lists: "ph sid = Some Spawned \<Longrightarrow>
    stream_step (w, ph) (w\<lparr>EVENT_STREAM_TASKS := hm_insert sid task (EVENT_STREAM_TASKS w)\<rparr>, ph(sid \<mapsto> Listed))"
| signals: "ph sid = Some Listed \<Longrightarrow> stream_step (w, ph) (w, ph(sid \<mapsto> Running))"
| ends_itself: "ph sid = Some Running \<Longrightarrow> stream_step (w, ph) (unregister sid w, ph(sid \<mapsto> Ended))"
| stops: "hm_get (EVENT_STREAM_TASKS w) sid = Some task \<Longrightarrow>
    stream_step (w, ph) (unregister sid w, ph(sid \<mapsto> Stopping))"
| stops_all: "stream_step (w, ph) (w\<lparr>EVENT_STREAM_TASKS := []\<rparr>,
    \<lambda>sid. if hm_contains (EVENT_STREAM_TASKS w) sid then Some Stopping else ph sid)"
| drops_guard: "ph sid = Some Stopping \<Longrightarrow> stream_step (w, ph) (unregister sid w, ph(sid \<mapsto> Ended))"

inductive streams_reachable :: "('h, 'v) streams_world \<times> (string \<rightharpoonup> phase) \<Rightarrow> bool" where
  none_yet: "streams_reachable (\<lparr>EVENT_STREAM_SEQUENCE = 1, EVENT_STREAM_TASKS = [], streams_rest = v\<rparr>, Map.empty)"
| one_more: "streams_reachable x \<Longrightarrow> stream_step x y \<Longrightarrow> streams_reachable y"

definition listed_iff_live :: "('h, 'v) streams_world \<times> (string \<rightharpoonup> phase) \<Rightarrow> bool" where
  "listed_iff_live x \<longleftrightarrow>
     (\<forall>sid. hm_contains (EVENT_STREAM_TASKS (fst x)) sid \<longleftrightarrow> snd x sid = Some Listed \<or> snd x sid = Some Running) \<and>
     (\<forall>sid. snd x sid \<noteq> None \<longrightarrow> (\<exists>n < unat (EVENT_STREAM_SEQUENCE (fst x)). sid = ''event-stream-'' @ show_nat n))"

lemma stream_step_keeps: "stream_step x y \<Longrightarrow> listed_iff_live x \<Longrightarrow> listed_iff_live y"
proof (induction rule: stream_step.induct)
  case (spawns w ph)
  have n: "unat (EVENT_STREAM_SEQUENCE w + 1) = Suc (unat (EVENT_STREAM_SEQUENCE w))"
    using spawns(1) by (rule unat_Suc_u64)
  have "ph (stream_id (EVENT_STREAM_SEQUENCE w)) = None"
    using spawns(2) by (force simp: listed_iff_live_def stream_id_def)
  then show ?case
    using spawns(2) n by (auto simp: listed_iff_live_def stream_id_def less_Suc_eq)
qed (auto simp: listed_iff_live_def unregister_def hm_contains_def split: if_splits)

interpretation stream_entry: withdrawal
  "\<lambda>x :: ('h, 'v) streams_world \<times> (string \<rightharpoonup> phase). hm_contains (EVENT_STREAM_TASKS (fst x)) sid"
  "\<lambda>x y. stream_step x y \<and> snd x sid \<noteq> Some Spawned"
  "\<lambda>x. (unregister sid (fst x), (snd x)(sid \<mapsto> Stopping))"
  for sid :: string
proof unfold_locales
  show "\<not> hm_contains (EVENT_STREAM_TASKS (fst (unregister sid (fst x), (snd x)(sid \<mapsto> Stopping)))) sid"
    for x :: "('h, 'v) streams_world \<times> (string \<rightharpoonup> phase)"
    by (simp add: unregister_def hm_contains_def)
  show "\<not> hm_contains (EVENT_STREAM_TASKS (fst y)) sid"
    if "stream_step x y \<and> snd x sid \<noteq> Some Spawned" "\<not> hm_contains (EVENT_STREAM_TASKS (fst x)) sid"
    for x y :: "('h, 'v) streams_world \<times> (string \<rightharpoonup> phase)"
    using that by (auto elim!: stream_step.cases simp: unregister_def hm_contains_def split: if_splits)
qed

lemma reachable_listed_iff_live: "streams_reachable x \<Longrightarrow> listed_iff_live x"
proof (induction rule: streams_reachable.induct)
  case (none_yet v)
  then show ?case by (simp add: listed_iff_live_def hm_contains_def)
qed (rule stream_step_keeps)

text \<open>
  C22 (invariant). The host's view of its subscriptions is the truth. However starts, ends and stops
  interleave, a subscription is in the table, so that it can be stopped, exactly while its task is waiting
  for its start signal there or running: no stream that ended is listed, and none runs unlisted unless it
  was stopped.
\<close>

theorem stream_listed_iff_live:
  assumes "streams_reachable (w, ph)"
  shows "hm_contains (EVENT_STREAM_TASKS w) sid \<longleftrightarrow> ph sid = Some Listed \<or> ph sid = Some Running"
  using reachable_listed_iff_live [OF assms] by (simp add: listed_iff_live_def)

theorem stream_listed_iff_live_witness:
  "\<exists>w :: (nat, unit) streams_world. \<exists>ph. streams_reachable (w, ph) \<and> ph ''event-stream-1'' = Some Listed \<and>
     hm_contains (EVENT_STREAM_TASKS w) ''event-stream-1''"
proof -
  let ?w = "\<lambda>n m. \<lparr>EVENT_STREAM_SEQUENCE = n, EVENT_STREAM_TASKS = m, streams_rest = ()\<rparr> :: (nat, unit) streams_world"
  have one: "stream_id 1 = ''event-stream-1''"
    by (simp add: stream_id_def) code_simp
  have "streams_reachable (?w 2 [], Map.empty(''event-stream-1'' \<mapsto> Spawned))"
    using streams_reachable.one_more [OF streams_reachable.none_yet stream_step.spawns, of "()"]
    by (simp add: one)
  from streams_reachable.one_more [OF this stream_step.lists [of _ "''event-stream-1''" _ 5]]
  have r: "streams_reachable (?w 2 [(''event-stream-1'', 5)], Map.empty(''event-stream-1'' \<mapsto> Listed))"
    by (simp add: hm_insert_def)
  show ?thesis
    using stream_listed_iff_live [OF r, of "''event-stream-1''"]
    by (intro exI [of _ "?w 2 [(''event-stream-1'', 5)]"] exI [of _ "Map.empty(''event-stream-1'' \<mapsto> Listed)"])
      (simp add: r)
qed

end
