(* ===== verification/Grant_Resume.thy ===== *)
theory Grant_Resume
  imports Sdk_Errors
begin

section \<open>Keeping a pending grant sign-in alive\<close>

text \<open>
  Models \<^verbatim>\<open>src/grant_resume.rs\<close>: the global slot with the state of the sign-in that may be resumed,
  the test that tells a dead relay poll from a failed grant exchange, the backoff, and the loop that
  rejoins the relay channel.

  The flow (\<open>'f\<close>), the session (\<open>'s\<close>) and what \<^verbatim>\<open>PubkyGrantAuthFlow\<close> does with them are code of the
  \<^verbatim>\<open>pubky\<close> SDK and parameters here; so are the clock and \<^verbatim>\<open>tokio::time::sleep\<close>. They act on a world
  that includes the slot, because other threads may start or cancel a sign-in during every wait. They are
  total functions: a poll of the SDK that never returned would be a call that never returns, whatever this file
  does, and is not represented; what is shown is that the loop around the polls ends.
\<close>

definition QUICK_FAILURE :: duration where
  "QUICK_FAILURE = from_secs 5"

definition MAX_OUTAGE :: duration where
  "MAX_OUTAGE = from_secs 90"

definition MAX_BACKOFF :: duration where
  "MAX_BACKOFF = from_secs 8"

definition RESUME_WINDOW :: duration where
  "RESUME_WINDOW = from_secs 170"

text \<open>The SDK's \<^verbatim>\<open>GrantAuthFlowState\<close>, with the public fields the bindings read and fill.\<close>

record grant_flow_state =
  state_url :: string
  client_key_secret :: bytes
  approval_key_secret :: "bytes option"

record pending_grant_flow =
  generation :: u64
  flow_state :: grant_flow_state
  relay :: string
  started :: instant

record resume_slot =
  GENERATION :: u64
  PENDING :: "pending_grant_flow option"

text \<open>What the source reads of a flow: its authorization URL, the query pairs of that URL, its state.\<close>

record 'f flow_view =
  authorization_url :: "'f \<Rightarrow> string"
  query_pairs :: "'f \<Rightarrow> (string \<times> string) list"
  save_local :: "'f \<Rightarrow> grant_flow_state option"

definition pending_for :: "'f flow_view \<Rightarrow> 'f \<Rightarrow> u64 \<Rightarrow> instant \<Rightarrow> pending_grant_flow option" where
  "pending_for fv flow gen start =
     (case find (\<lambda>(key, _). key = ''relay'') (query_pairs fv flow) of
        None \<Rightarrow> None
      | Some (_, r) \<Rightarrow>
          (case save_local fv flow of
             None \<Rightarrow> None
           | Some st \<Rightarrow> Some \<lparr>generation = gen, flow_state = st, relay = r, started = start\<rparr>))"

definition slot_remember :: "'f flow_view \<Rightarrow> 'f \<Rightarrow> instant \<Rightarrow> resume_slot \<Rightarrow> resume_slot" where
  "slot_remember fv flow t sl =
     (let gen = GENERATION sl + 1 in \<lparr>GENERATION = gen, PENDING = pending_for fv flow gen t\<rparr>)"

definition slot_current :: "resume_slot \<Rightarrow> pending_grant_flow option" where
  "slot_current sl = PENDING sl"

definition is_current :: "u64 \<Rightarrow> resume_slot \<Rightarrow> bool" where
  "is_current gen sl \<longleftrightarrow> GENERATION sl = gen"

definition slot_forget :: "u64 \<Rightarrow> resume_slot \<Rightarrow> resume_slot" where
  "slot_forget gen sl =
     (case PENDING sl of
        Some p \<Rightarrow> if generation p = gen then sl\<lparr>PENDING := None\<rparr> else sl
      | None \<Rightarrow> sl)"

definition slot_clear :: "resume_slot \<Rightarrow> resume_slot" where
  "slot_clear sl = \<lparr>GENERATION = GENERATION sl + 1, PENDING = None\<rparr>"

definition is_relay_transport_failure :: "sdk_error \<Rightarrow> string \<Rightarrow> bool" where
  "is_relay_transport_failure e rel =
     (case variant e of
        Request (ReqTransport t) \<Rightarrow>
          (let rel = trim_end_char (CHR ''/'') rel in
           case err_url t of
             None \<Rightarrow> False
           | Some u \<Rightarrow> u = rel \<or> prefix (rel @ ''/'') u)
      | _ \<Rightarrow> False)"

definition backoff :: "u32 \<Rightarrow> duration" where
  "backoff quick_failures =
     min (from_secs (unat (push_bit (unat (min quick_failures 3)) (1 :: u64)))) MAX_BACKOFF"

definition resume_delay :: "u32 \<Rightarrow> duration \<Rightarrow> duration \<Rightarrow> duration option" where
  "resume_delay quick_failures outage since_start =
     (if outage \<ge> MAX_OUTAGE \<or> since_start \<ge> RESUME_WINDOW then None
      else Some (backoff quick_failures))"

text \<open>
  The effects the loop has on the world: the clock, the SDK's \<^verbatim>\<open>await_approval\<close> and \<^verbatim>\<open>restore\<close>, and the
  sleep. \<^verbatim>\<open>Instant::elapsed\<close> saturates at zero, as subtraction of naturals does.
\<close>

record ('f, 's, 'w) resume_env =
  now :: "'w \<Rightarrow> instant"
  sdk_await_approval :: "'f \<Rightarrow> 'w \<Rightarrow> (sdk_error + 's) \<times> 'w"
  sdk_restore :: "grant_flow_state \<Rightarrow> 'w \<Rightarrow> (sdk_error + 'f) \<times> 'w"
  sleep :: "duration \<Rightarrow> 'w \<Rightarrow> 'w"

definition elapsed :: "('f, 's, 'w) resume_env \<Rightarrow> instant \<Rightarrow> 'w \<Rightarrow> duration" where
  "elapsed E t w = now E w - t"

text \<open>
  The loop of \<^verbatim>\<open>await_with\<close>; a run that never returns is the value \<^term>\<open>None\<close>. The first block is the
  case of a failed poll: count it, decide, and sleep.
\<close>

definition count_failure ::
  "('f, 's, 'w) resume_env \<Rightarrow> instant \<Rightarrow> u32 \<Rightarrow> instant option \<Rightarrow> 'w \<Rightarrow> u32 \<times> instant option" where
  "count_failure E listening_since quick_failures outage_since w =
     (if elapsed E listening_since w < QUICK_FAILURE
      then (quick_failures + 1,
            Some (case outage_since of None \<Rightarrow> listening_since | Some since \<Rightarrow> since))
      else (0, None))"

definition outage_length :: "('f, 's, 'w) resume_env \<Rightarrow> instant option \<Rightarrow> 'w \<Rightarrow> duration" where
  "outage_length E outage_since w =
     (case outage_since of None \<Rightarrow> 0 | Some since \<Rightarrow> elapsed E since w)"

partial_function (option) await_loop ::
  "('f, 's, 'w) resume_env \<Rightarrow> pending_grant_flow option \<Rightarrow> (u64 \<Rightarrow> 'w \<Rightarrow> bool) \<Rightarrow> (u64 \<Rightarrow> 'w \<Rightarrow> 'w) \<Rightarrow>
   'f \<Rightarrow> instant \<Rightarrow> u32 \<Rightarrow> instant option \<Rightarrow> 'w \<Rightarrow> ((sdk_error + 's) \<times> 'w) option" where
  "await_loop E pending still_wanted done flow listening_since quick_failures outage_since w =
     (case sdk_await_approval E flow w of
        (Inr session, w) \<Rightarrow>
          Some (Inr session, case pending of Some p \<Rightarrow> done (generation p) w | None \<Rightarrow> w)
      | (Inl err, w) \<Rightarrow>
          (case pending of
             None \<Rightarrow> Some (Inl err, w)
           | Some p \<Rightarrow>
               if \<not> is_relay_transport_failure err (relay p) \<or> \<not> still_wanted (generation p) w
               then Some (Inl err, done (generation p) w)
               else
                 (case count_failure E listening_since quick_failures outage_since w of
                    (quick_failures, outage_since) \<Rightarrow>
                 (case resume_delay quick_failures (outage_length E outage_since w) (elapsed E (started p) w) of
                    None \<Rightarrow> Some (Inl err, done (generation p) w)
                  | Some delay \<Rightarrow>
                      (let w = sleep E delay w in
                       if \<not> still_wanted (generation p) w then Some (Inl err, w)
                       else (case sdk_restore E (flow_state p) w of
                               (Inl restore_error, w) \<Rightarrow> Some (Inl restore_error, done (generation p) w)
                             | (Inr restored, w) \<Rightarrow>
                                 await_loop E pending still_wanted done restored (now E w)
                                   quick_failures outage_since w))))))"

definition await_with ::
  "('f, 's, 'w) resume_env \<Rightarrow> 'f \<Rightarrow> pending_grant_flow option \<Rightarrow> (u64 \<Rightarrow> 'w \<Rightarrow> bool) \<Rightarrow>
   (u64 \<Rightarrow> 'w \<Rightarrow> 'w) \<Rightarrow> 'w \<Rightarrow> ((sdk_error + 's) \<times> 'w) option" where
  "await_with E flow pending still_wanted done w =
     await_loop E pending still_wanted done flow
       (case pending of None \<Rightarrow> now E w | Some p \<Rightarrow> started p) 0 None w"

text \<open>The world of the global slot: the slot beside everything else.\<close>

record 'v slot_world =
  slot :: resume_slot
  rest :: 'v

definition await_resuming ::
  "'f flow_view \<Rightarrow> ('f, 's, 'v slot_world) resume_env \<Rightarrow> 'f \<Rightarrow> 'v slot_world \<Rightarrow>
   ((sdk_error + 's) \<times> 'v slot_world) option" where
  "await_resuming fv E flow w =
     await_with E flow
       (case slot_current (slot w) of
          Some p \<Rightarrow> if state_url (flow_state p) = authorization_url fv flow then Some p else None
        | None \<Rightarrow> None)
       (\<lambda>gen w. is_current gen (slot w))
       (\<lambda>gen w. w\<lparr>slot := slot_forget gen (slot w)\<rparr>) w"


subsection \<open>The delays\<close>

lemma unat_min_3: "unat (min q (3 :: u32)) = min (unat q) 3"
  by (simp add: min_def word_le_nat_alt)

lemma backoff_eq: "backoff q = from_secs (2 ^ min (unat q) 3)"
proof -
  have "min (unat q) 3 \<le> 3" by simp
  then have "min (unat q) 3 \<in> {0, 1, 2, 3}" by auto
  then show ?thesis
    unfolding backoff_def unat_min_3 MAX_BACKOFF_def
    by (auto simp: from_secs_def push_bit_eq_mult)
qed

lemma backoff_at_least: "from_secs 1 \<le> backoff q"
  by (simp add: backoff_eq)

lemma backoff_at_most: "backoff q \<le> from_secs 8"
proof -
  have "(2 :: nat) ^ min (unat q) 3 \<le> 2 ^ 3" by (intro power_increasing) auto
  then show ?thesis by (simp add: backoff_eq)
qed

lemma resume_delay_cases:
  "resume_delay q outage t = Some d \<Longrightarrow>
   outage < MAX_OUTAGE \<and> t < RESUME_WINDOW \<and> d = backoff q"
  by (auto simp: resume_delay_def split: if_splits)

subsection \<open>The loop ends\<close>

text \<open>
  What the loop relies on: the clock does not run backwards, a sleep lasts at least as long as asked,
  and (for counting) a restore is one restore and nothing else is.
\<close>

definition clock_contract :: "('f, 's, 'w) resume_env \<Rightarrow> bool" where
  "clock_contract E \<longleftrightarrow>
     (\<forall>d w. now E w + d \<le> now E (sleep E d w)) \<and>
     (\<forall>f w. now E w \<le> now E (snd (sdk_await_approval E f w))) \<and>
     (\<forall>st w. now E w \<le> now E (snd (sdk_restore E st w)))"

definition counts_restores :: "('f, 's, 'w) resume_env \<Rightarrow> (u64 \<Rightarrow> 'w \<Rightarrow> 'w) \<Rightarrow> ('w \<Rightarrow> nat) \<Rightarrow> bool" where
  "counts_restores E done restores \<longleftrightarrow>
     (\<forall>d w. restores (sleep E d w) = restores w) \<and>
     (\<forall>f w. restores (snd (sdk_await_approval E f w)) = restores w) \<and>
     (\<forall>gen w. restores (done gen w) = restores w) \<and>
     (\<forall>st w. restores (snd (sdk_restore E st w)) = restores w + 1)"

text \<open>Whole seconds until the resume window of \<open>p\<close> closes, rounded up.\<close>

definition window_left :: "('f, 's, 'w) resume_env \<Rightarrow> pending_grant_flow \<Rightarrow> 'w \<Rightarrow> nat" where
  "window_left E p w = (started p + RESUME_WINDOW - now E w + (from_secs 1 - 1)) div from_secs 1"

lemma round_up_step:
  fixes a b k :: nat
  assumes "0 < a" and "0 < k" and "b \<le> a - k"
  shows "(b + (k - 1)) div k < (a + (k - 1)) div k"
proof (cases "k \<le> a")
  case True
  then have "(b + (k - 1) + k) div k \<le> (a + (k - 1)) div k"
    using assms by (intro div_le_mono) auto
  moreover have "(b + (k - 1) + k) div k = Suc ((b + (k - 1)) div k)"
    using assms(2) div_add_self2 [of k "b + (k - 1)"] by linarith
  ultimately show ?thesis by simp
next
  case False
  then have "b = 0" using assms by simp
  moreover have "0 < (a + (k - 1)) div k"
    using assms by (simp add: div_greater_zero_iff)
  ultimately show ?thesis using assms by simp
qed

lemma window_left_step:
  assumes "elapsed E (started p) w < RESUME_WINDOW" and "now E w + from_secs 1 \<le> now E w'"
  shows "window_left E p w' < window_left E p w"
  unfolding window_left_def using assms
  by (intro round_up_step) (auto simp: elapsed_def from_secs_def RESUME_WINDOW_def)

text \<open>One failed round: a delay is slept and the flow restored, and a second of the window is used up.\<close>

lemma failed_round_progress:
  assumes "clock_contract E" and "counts_restores E done restores"
    and "sdk_await_approval E flow w = (a, w1)" and "resume_delay q outage (elapsed E (started p) w1) = Some d"
    and "sdk_restore E (flow_state p) (sleep E d w1) = (b, w3)"
  shows "window_left E p w3 < window_left E p w" and "restores w3 = restores w + 1"
proof -
  have w1: "now E w \<le> now E w1" and c1: "restores w1 = restores w"
    using assms(1-3) unfolding clock_contract_def counts_restores_def by (metis snd_conv)+
  have "now E w1 + from_secs 1 \<le> now E (sleep E d w1)" and "now E (sleep E d w1) \<le> now E w3"
    and "restores w3 = restores w + 1"
    using assms(1,2,5) c1 resume_delay_cases [OF assms(4)] backoff_at_least [of q]
    unfolding clock_contract_def counts_restores_def
    by (metis add_le_mono1 add.commute le_trans snd_conv)+
  then have "window_left E p w3 < window_left E p w1"
    using resume_delay_cases [OF assms(4)] by (intro window_left_step) auto
  also have "window_left E p w1 \<le> window_left E p w"
    using w1 by (auto simp: window_left_def intro!: div_le_mono)
  finally show "window_left E p w3 < window_left E p w" .
  show "restores w3 = restores w + 1" by fact
qed

lemma await_loop_ends:
  assumes "clock_contract E" and "counts_restores E done restores"
  shows "\<exists>r w'. await_loop E (Some p) wanted done flow since q out w = Some (r, w') \<and>
           restores w' \<le> restores w + window_left E p w"
proof (induction "window_left E p w" arbitrary: flow since q out w rule: less_induct)
  case less
  obtain a w1 where a: "sdk_await_approval E flow w = (a, w1)" by fastforce
  have c1: "restores w1 = restores w"
    using assms(2) a unfolding counts_restores_def by (metis snd_conv)
  have c: "restores (done g v) = restores v" "restores (sleep E d v) = restores v" for g d v
    using assms(2) by (simp_all add: counts_restores_def)
  note step = await_loop.simps [of E "Some p" wanted "done" flow since q out w]
  show ?case
  proof (cases "\<exists>err. a = Inl err \<and> is_relay_transport_failure err (relay p) \<and> wanted (generation p) w1")
    case False
    then show ?thesis
      by (subst step) (auto simp: a c c1 split: sum.split)
  next
    case True
    then obtain err where err: "a = Inl err" "is_relay_transport_failure err (relay p)"
      "wanted (generation p) w1" by blast
    obtain q' out' where cnt: "count_failure E since q out w1 = (q', out')" by fastforce
    show ?thesis
    proof (cases "resume_delay q' (outage_length E out' w1) (elapsed E (started p) w1)")
      case None
      then show ?thesis
        by (subst step) (simp add: a err cnt c c1)
    next
      case (Some d)
      let ?w2 = "sleep E d w1"
      obtain b w3 where b: "sdk_restore E (flow_state p) ?w2 = (b, w3)" by fastforce
      note less' = failed_round_progress(1) [OF assms a Some b]
        and c3 = failed_round_progress(2) [OF assms a Some b]
      show ?thesis
      proof (cases "wanted (generation p) ?w2 \<and> \<not> isl b")
        case True
        then obtain f where f: "b = Inr f" by (cases b) auto
        obtain r w' where "await_loop E (Some p) wanted done f (now E w3) q' out' w3 = Some (r, w')"
          and "restores w' \<le> restores w3 + window_left E p w3"
          using less [OF less'] by blast
        with less' c3 show ?thesis
          by (subst step) (simp add: a err cnt Some f b [unfolded f] True)
      next
        case False
        then show ?thesis
          using less' c3 by (subst step) (auto simp: a err cnt Some b c c1 Let_def split: sum.splits)
      qed
    qed
  qed
qed


subsection \<open>The saved state does not outlive the flow\<close>

text \<open>During any wait, the other threads keep \<open>ok\<close>.\<close>

definition env_keeps :: "('w \<Rightarrow> bool) \<Rightarrow> ('f, 's, 'w) resume_env \<Rightarrow> bool" where
  "env_keeps ok E \<longleftrightarrow>
     (\<forall>d w. ok w \<longrightarrow> ok (sleep E d w)) \<and>
     (\<forall>f w. ok w \<longrightarrow> ok (snd (sdk_await_approval E f w))) \<and>
     (\<forall>st w. ok w \<longrightarrow> ok (snd (sdk_restore E st w)))"

text \<open>
  What the loop needs of the place that keeps its saved state: \<open>holds gen w\<close> says that the state of
  generation \<open>gen\<close> is saved in \<open>w\<close>. A generation that is no longer wanted has been replaced, and
  \<open>done\<close> drops it.
\<close>

locale saved_state =
  fixes still_wanted :: "u64 \<Rightarrow> 'w \<Rightarrow> bool" and finish :: "u64 \<Rightarrow> 'w \<Rightarrow> 'w"
    and holds :: "u64 \<Rightarrow> 'w \<Rightarrow> bool" and ok :: "'w \<Rightarrow> bool"
  assumes unwanted_gone: "ok w \<Longrightarrow> \<not> still_wanted gen w \<Longrightarrow> \<not> holds gen w"
    and finish_drops: "\<not> holds gen (finish gen w)"
    and finish_ok: "ok w \<Longrightarrow> ok (finish gen w)"
begin

lemma loop_drops_raw:
  "await_loop E pending wanted done flow since q out w = Some rw \<Longrightarrow>
   pending = Some p \<and> wanted = still_wanted \<and> done = finish \<and> env_keeps ok E \<and> ok w \<Longrightarrow>
   \<not> holds (generation p) (snd rw) \<and> ok (snd rw)"
proof (induction rule: await_loop.raw_induct [rotated, consumes 1])
  case (1 rec E pending wanted "done" flow since q out w rw)
  then have p: "pending = Some p" "wanted = still_wanted" "done = finish"
    and assms: "env_keeps ok E" and w: "ok w" by auto
  obtain a w1 where a: "sdk_await_approval E flow w = (a, w1)" by fastforce
  then have w1: "ok w1" using assms w unfolding env_keeps_def by (metis snd_conv)
  have sl: "ok (sleep E d w1)" for d
    using assms w1 by (simp add: env_keeps_def)
  have rs: "ok w3" if "sdk_restore E (flow_state p) (sleep E d w1) = (b, w3)" for d b w3
    using assms sl [of d] that unfolding env_keeps_def by (metis snd_conv)
  note gone = unwanted_gone [OF sl]
  show ?case
    using 1(2) a w1 p
    by (auto simp: finish_drops finish_ok sl Let_def assms dest: rs gone 1(1)
        split: sum.splits if_splits option.splits prod.splits)
qed

lemma loop_drops:
  "env_keeps ok E \<Longrightarrow> ok w \<Longrightarrow>
   await_loop E (Some p) still_wanted finish flow since q out w = Some (r, w') \<Longrightarrow>
   \<not> holds (generation p) w' \<and> ok w'"
  using loop_drops_raw by fastforce

end

text \<open>
  The slot is in order when what it holds is the latest generation. Every slot operation keeps that.
  An operation is one step here; in the source the counter is bumped just before the lock of the slot
  is taken, and theory \<open>Sign_In_Races\<close> follows the two steps.
\<close>

definition slot_ok :: "resume_slot \<Rightarrow> bool" where
  "slot_ok sl \<longleftrightarrow> (\<forall>p. PENDING sl = Some p \<longrightarrow> generation p = GENERATION sl)"

definition slot_holds :: "u64 \<Rightarrow> resume_slot \<Rightarrow> bool" where
  "slot_holds gen sl \<longleftrightarrow> (\<exists>p. PENDING sl = Some p \<and> generation p = gen)"

lemma pending_for_generation: "pending_for fv flow gen t = Some p \<Longrightarrow> generation p = gen \<and> started p = t"
  by (auto simp: pending_for_def split: option.splits prod.splits)

lemma slot_ok_ops [simp, intro]:
  "slot_ok (slot_remember fv flow t sl)"
  "slot_ok sl \<Longrightarrow> slot_ok (slot_forget gen sl)"
  "slot_ok (slot_clear sl)"
  by (auto simp: slot_ok_def slot_remember_def slot_forget_def slot_clear_def Let_def
      dest: pending_for_generation split: option.splits)

interpretation global_slot: saved_state
  "\<lambda>gen (w :: 'v slot_world). is_current gen (slot w)"
  "\<lambda>gen w. w\<lparr>slot := slot_forget gen (slot w)\<rparr>"
  "\<lambda>gen w. slot_holds gen (slot w)" "\<lambda>w. slot_ok (slot w)"
  by unfold_locales
    (auto simp: is_current_def slot_holds_def slot_ok_def slot_forget_def split: option.splits)


subsection \<open>Properties\<close>

text \<open>
  C8 (termination). The resume loop always returns, whatever the relay does: provided the clock does
  not run backwards and a sleep lasts as long as asked, \<^verbatim>\<open>await_with\<close> ends for every flow and
  rejoins the channel at most 170 times, once per second of the resume window.
\<close>

theorem resume_loop_returns:
  assumes "clock_contract E" and "counts_restores E finish restores"
    and "\<And>p. pending = Some p \<Longrightarrow> started p \<le> now E w"
  shows "\<exists>r w'. await_with E flow pending wanted finish w = Some (r, w') \<and>
           restores w' \<le> restores w + 170"
proof (cases pending)
  case None
  obtain a w1 where a: "sdk_await_approval E flow w = (a, w1)" by fastforce
  then have "restores w1 = restores w"
    using assms(2) unfolding counts_restores_def by (metis snd_conv)
  then show ?thesis
    unfolding await_with_def None by (subst await_loop.simps) (simp add: a split: sum.split)
next
  case (Some p)
  have "window_left E p w \<le> (RESUME_WINDOW + (from_secs 1 - 1)) div from_secs 1"
    unfolding window_left_def using assms(3) [OF Some] by (intro div_le_mono) simp
  then have "window_left E p w \<le> 170"
    by (simp add: RESUME_WINDOW_def from_secs_def)
  then show ?thesis
    using await_loop_ends [OF assms(1,2), of p wanted flow "started p" 0 None w]
    unfolding await_with_def Some by fastforce
qed

text \<open>A relay that never answers: every poll fails at once, time passes only while sleeping.\<close>

definition dead_relay :: "(unit, unit, nat \<times> nat) resume_env" where
  "dead_relay =
     \<lparr>now = fst,
      sdk_await_approval = (\<lambda>_ w. (Inl \<lparr>display = ''offline'', sources = [],
         variant = Request (ReqTransport \<lparr>display = ''dns'', sources = [],
           err_url = Some ''https://relay.example/inbox/1'', is_connect = True\<rparr>)\<rparr>, w)),
      sdk_restore = (\<lambda>_ w. (Inr (), (fst w, snd w + 1))),
      sleep = (\<lambda>d w. (fst w + d, snd w))\<rparr>"

definition example_pending :: pending_grant_flow where
  "example_pending =
     \<lparr>generation = 1,
      flow_state = \<lparr>state_url = ''pubkyauth:x'', client_key_secret = [], approval_key_secret = None\<rparr>,
      relay = ''https://relay.example/inbox/'', started = 0\<rparr>"

theorem resume_loop_returns_witness:
  "\<exists>r w'. await_with dead_relay () (Some example_pending) (\<lambda>_ _. True) (\<lambda>_ w. w) (0, 0) = Some (r, w') \<and>
     snd w' \<le> 170"
  using resume_loop_returns [of dead_relay "\<lambda>_ w. w" snd "Some example_pending" "(0, 0)" "()" "\<lambda>_ _. True"]
  by (simp add: clock_contract_def counts_restores_def dead_relay_def example_pending_def)

text \<open>
  C9 (safety). A restore happens only for a dead relay poll, in every round of the loop and whatever it
  counted so far. A session is handed on, and so is every error but a transport failure whose URL is this
  flow's relay or below it, with the saved state dropped and nothing restored; in particular a failed
  grant exchange at the homeserver is never retried on an inbox the relay has emptied.
\<close>

theorem only_dead_relay_polls_resume:
  assumes "sdk_await_approval E flow w = (a, w1)"
    and "\<And>err t u. a = Inl err \<Longrightarrow> variant err = Request (ReqTransport t) \<Longrightarrow> err_url t = Some u \<Longrightarrow>
           u \<noteq> trim_end_char (CHR ''/'') (relay p) \<and> \<not> prefix (trim_end_char (CHR ''/'') (relay p) @ ''/'') u \<or>
           \<not> wanted (generation p) w1"
  shows "await_loop E (Some p) wanted finish flow since q out w = Some (a, finish (generation p) w1) \<and>
    await_with E flow (Some p) wanted finish w = Some (a, finish (generation p) w1)"
proof -
  have "\<not> is_relay_transport_failure err (relay p) \<or> \<not> wanted (generation p) w1" if "a = Inl err" for err
    using assms(2) [OF that]
    by (auto simp: is_relay_transport_failure_def Let_def split: pubky_error.splits request_error.splits option.splits)
  then have "await_loop E (Some p) wanted finish flow since q out w = Some (a, finish (generation p) w1)" for since q out
    by (subst await_loop.simps) (use assms(1) in \<open>auto split: sum.split\<close>)
  then show ?thesis by (simp add: await_with_def)
qed

theorem only_dead_relay_polls_resume_witness:
  "let E = dead_relay\<lparr>sdk_await_approval := (\<lambda>_ w. (Inl \<lparr>display = ''exchange failed'', sources = [],
         variant = Request (ReqTransport \<lparr>display = ''reset'', sources = [],
           err_url = Some ''https://homeserver.example/session'', is_connect = True\<rparr>)\<rparr>, w))\<rparr>
   in \<exists>err. await_with E () (Some example_pending) (\<lambda>_ _. True) (\<lambda>_ w. w) (7, 0) = Some (Inl err, (7, 0))"
  unfolding Let_def
  by (subst only_dead_relay_polls_resume [THEN conjunct2])
    (auto simp: dead_relay_def example_pending_def trim_end_char_def)

text \<open>
  The relay secret and the client key do not outlive the sign-in: when \<^verbatim>\<open>await_resuming\<close>
  returns, the global slot no longer holds the state this call resumed, on every path, also when
  another sign-in started or was cancelled while it slept; and the slot is left in order.
\<close>

theorem resume_state_dropped_on_return:
  assumes "env_keeps (\<lambda>w. slot_ok (slot w)) E" and "slot_ok (slot w)"
    and "slot_current (slot w) = Some p" and "state_url (flow_state p) = authorization_url fv flow"
    and "await_resuming fv E flow w = Some (r, w')"
  shows "\<not> slot_holds (generation p) (slot w') \<and> slot_ok (slot w')"
  using global_slot.loop_drops [OF assms(1,2)] assms(3-)
  by (simp add: await_resuming_def await_with_def)

theorem resume_state_dropped_on_return_witness:
  "let E = \<lparr>now = \<lambda>_. 0, sdk_await_approval = \<lambda>(_ :: unit) w. (Inr 5, w), sdk_restore = \<lambda>_ w. (Inr (), w),
            sleep = \<lambda>_ w. w\<rparr> :: (unit, nat, unit slot_world) resume_env;
       fv = \<lparr>authorization_url = \<lambda>_. ''pubkyauth:x'', query_pairs = \<lambda>_. [], save_local = \<lambda>_. None\<rparr>;
       w = \<lparr>slot = \<lparr>GENERATION = 1, PENDING = Some example_pending\<rparr>, rest = ()\<rparr>
   in \<exists>r w'. await_resuming fv E () w = Some (r, w') \<and> \<not> slot_holds 1 (slot w')"
proof -
  let ?E = "\<lparr>now = \<lambda>_. 0, sdk_await_approval = \<lambda>(_ :: unit) w. (Inr 5, w), sdk_restore = \<lambda>_ w. (Inr (), w),
            sleep = \<lambda>_ w. w\<rparr> :: (unit, nat, unit slot_world) resume_env"
  let ?fv = "\<lparr>authorization_url = \<lambda>_ :: unit. ''pubkyauth:x'', query_pairs = \<lambda>_. [], save_local = \<lambda>_. None\<rparr>"
  let ?w = "\<lparr>slot = \<lparr>GENERATION = 1, PENDING = Some example_pending\<rparr>, rest = ()\<rparr>"
  have ok: "env_keeps (\<lambda>w. slot_ok (slot w)) ?E" "slot_ok (slot ?w)"
    by (auto simp: env_keeps_def slot_ok_def example_pending_def)
  obtain r w' where r: "await_resuming ?fv ?E () ?w = Some (r, w')"
    unfolding await_resuming_def await_with_def by (subst (asm) await_loop.simps) auto
  have "\<not> slot_holds (generation example_pending) (slot w')"
    using resume_state_dropped_on_return [OF ok _ _ r, of example_pending]
    by (simp add: slot_current_def example_pending_def)
  then show ?thesis
    using r by (simp add: Let_def example_pending_def)
qed

text \<open>
  Generations isolate sign-ins: starting or clearing a sign-in stops the loop of the
  one before it, and dropping one generation's state never drops the state of another.
\<close>

theorem slot_generations_isolate:
  "\<not> is_current (GENERATION sl) (slot_remember fv flow t sl) \<and>
   \<not> is_current (GENERATION sl) (slot_clear sl) \<and> slot_current (slot_clear sl) = None \<and>
   slot_current (slot_forget (GENERATION sl) (slot_remember fv flow t sl)) =
     pending_for fv flow (GENERATION sl + 1) t \<and>
   slot_current (slot_forget (GENERATION sl + 1) (slot_remember fv flow t sl)) = None"
  by (auto simp: is_current_def slot_remember_def slot_clear_def slot_current_def slot_forget_def Let_def
      dest: pending_for_generation split: option.splits)

end
