(* ===== verification/Json_Utils.thy ===== *)
theory Json_Utils
  imports Sdk_Errors
begin

section \<open>Responses and JSON\<close>

text \<open>
  Models \<^verbatim>\<open>src/utils.rs\<close>: the response vector of the string-based calls, and the JSON of DNS records,
  sessions and key pairs. \<^verbatim>\<open>serde_json::Value\<close> is a datatype, an object the list of its fields; turning a
  value into text is \<^verbatim>\<open>serde_json\<close>'s and a parameter, as are the base64 and hex encoders. DNS records are
  \<^verbatim>\<open>simple_dns\<close>'s \<^verbatim>\<open>RData\<close> with the fields the source reads; names and character strings are their
  \<^verbatim>\<open>Display\<close> text. The \<^verbatim>\<open>Display\<close> of IP addresses is the standard library's and is modelled.
\<close>

datatype json =
    JNull
  | JBool bool
  | JNum int
  | JStr string
  | JArr "json list"
  | JObj "(string \<times> json) list"

fun field :: "json \<Rightarrow> string \<Rightarrow> json option" where
  "field (JObj m) k = hm_get m k"
| "field _ k = None"

definition create_response_vector :: "bool \<Rightarrow> string \<Rightarrow> string list" where
  "create_response_vector err data = [show_bool err, data]"

definition parse_dns_answers :: "json list \<Rightarrow> 'r list result" where
  "parse_dns_answers answers = Inl ''parse_dns_answers is not supported in the upgraded pkarr version''"

subsection \<open>IP addresses\<close>

definition ipv4_display :: "u32 \<Rightarrow> string" where
  "ipv4_display a =
     show_nat (unat a div 2 ^ 24) @ ''.'' @ show_nat (unat a div 2 ^ 16 mod 256) @ ''.'' @
     show_nat (unat a div 2 ^ 8 mod 256) @ ''.'' @ show_nat (unat a mod 256)"

definition hex_digit :: "nat \<Rightarrow> char" where
  "hex_digit d = (if d < 10 then char_of (48 + d) else char_of (87 + d))"

fun show_hex :: "nat \<Rightarrow> string" where
  "show_hex n = (if n < 16 then [hex_digit n] else show_hex (n div 16) @ [hex_digit (n mod 16)])"

declare show_hex.simps [simp del]

definition segments :: "128 word \<Rightarrow> nat list" where
  "segments a = map (\<lambda>i. unat a div 2 ^ (16 * (7 - i)) mod 2 ^ 16) [0..<8]"

text \<open>The longest run of zero segments, the first of them: the run being read, and the longest so far.\<close>

fun zero_run :: "nat \<Rightarrow> nat \<times> nat \<Rightarrow> nat \<times> nat \<Rightarrow> nat list \<Rightarrow> nat \<times> nat" where
  "zero_run i cur longest [] = longest"
| "zero_run i cur longest (seg # segs) =
     (if seg = 0
      then let cur = (if snd cur = 0 then i else fst cur, snd cur + 1) in
           zero_run (i + 1) cur (if snd cur > snd longest then cur else longest) segs
      else zero_run (i + 1) (0, 0) longest segs)"

fun fmt_subslice :: "nat list \<Rightarrow> string" where
  "fmt_subslice [] = []"
| "fmt_subslice [s] = show_hex s"
| "fmt_subslice (s # t # ss) = show_hex s @ '':'' @ fmt_subslice (t # ss)"

definition ipv6_display :: "128 word \<Rightarrow> string" where
  "ipv6_display a =
     (let segs = segments a in
      if take 5 segs = [0, 0, 0, 0, 0] \<and> segs ! 5 = 0xffff
      then ''::ffff:'' @ ipv4_display (ucast a)
      else case zero_run 0 (0, 0) (0, 0) segs of
             (start, len) \<Rightarrow>
               if len > 1 then fmt_subslice (take start segs) @ ''::'' @ fmt_subslice (drop (start + len) segs)
               else fmt_subslice segs)"

subsection \<open>DNS records\<close>

datatype svc_param =
    Mandatory "u16 list"
  | Alpn "string list"
  | NoDefaultAlpn
  | Port u16
  | Ipv4Hint "u32 list"
  | Ech bytes
  | Ipv6Hint "128 word list"
  | InvalidKey
  | UnknownParam u16 bytes

text \<open>A parameter comes with its key code, which the SDK computes.\<close>

record svcb =
  svc_priority :: u16
  svc_target :: string
  svc_params :: "(u16 \<times> svc_param) list"

datatype r_data =
    A u32
  | AAAA "128 word"
  | AFSDB u16 string
  | CAA u8 string bytes
  | HINFO string string
  | HTTPS svcb
  | MX u16 string
  | NAPTR u16 u16 string string string string
  | NS string
  | NullRecord bytes
  | OPT u8 "(u16 \<times> bytes) list"
  | PTR string
  | SOA string string u32 "32 word" "32 word" "32 word" u32
  | SRV u16 u16 u16 string
  | SVCB svcb
  | TXT "(string \<times> string option) list"
  | WKS u32 u8 bytes
  | OtherRecord

record resource_record =
  rr_name :: string
  rr_ttl :: u32
  rr_data :: r_data

definition jnat :: "'a :: len word \<Rightarrow> json" where
  "jnat w = JNum (uint w)"

definition jint :: "'a :: len word \<Rightarrow> json" where
  "jint w = JNum (sint w)"

fun svc_param_to_json :: "(bytes \<Rightarrow> string) \<Rightarrow> svc_param \<Rightarrow> json" where
  "svc_param_to_json b64 (Mandatory keys) = JArr (map jnat keys)"
| "svc_param_to_json b64 (Alpn alpns) = JArr (map JStr alpns)"
| "svc_param_to_json b64 NoDefaultAlpn = JBool True"
| "svc_param_to_json b64 (Port port) = jnat port"
| "svc_param_to_json b64 (Ipv4Hint ips) = JArr (map (JStr \<circ> ipv4_display) ips)"
| "svc_param_to_json b64 (Ech data) = JStr (b64 data)"
| "svc_param_to_json b64 (Ipv6Hint ips) = JArr (map (JStr \<circ> ipv6_display) ips)"
| "svc_param_to_json b64 InvalidKey = JNull"
| "svc_param_to_json b64 (UnknownParam code data) = JStr (b64 data)"

definition svc_params_to_json :: "(bytes \<Rightarrow> string) \<Rightarrow> (u16 \<times> svc_param) list \<Rightarrow> (string \<times> json) list" where
  "svc_params_to_json b64 ps =
     fold (\<lambda>(code, p) m. hm_insert (show_nat (unat code)) (svc_param_to_json b64 p) m) ps []"

definition svcb_to_json :: "(bytes \<Rightarrow> string) \<Rightarrow> string \<Rightarrow> svcb \<Rightarrow> json" where
  "svcb_to_json b64 tag s =
     JObj [(''type'', JStr tag), (''priority'', jnat (svc_priority s)), (''target'', JStr (svc_target s)),
           (''params'', JObj (svc_params_to_json b64 (svc_params s)))]"

fun txt_string :: "string \<times> string option \<Rightarrow> string" where
  "txt_string (key, Some v) = key @ ''='' @ v"
| "txt_string (key, None) = key"

fun r_data_to_json :: "(bytes \<Rightarrow> string) \<Rightarrow> r_data \<Rightarrow> json" where
  "r_data_to_json b64 (A address) = JObj [(''type'', JStr ''A''), (''address'', JStr (ipv4_display address))]"
| "r_data_to_json b64 (AAAA address) = JObj [(''type'', JStr ''AAAA''), (''address'', JStr (ipv6_display address))]"
| "r_data_to_json b64 (AFSDB subtype hostname) =
     JObj [(''type'', JStr ''AFSDB''), (''subtype'', jnat subtype), (''hostname'', JStr hostname)]"
| "r_data_to_json b64 (CAA flag tag v) =
     JObj [(''type'', JStr ''CAA''), (''flag'', jnat flag), (''tag'', JStr tag), (''value'', JStr (b64 v))]"
| "r_data_to_json b64 (HINFO cpu os) = JObj [(''type'', JStr ''HINFO''), (''cpu'', JStr cpu), (''os'', JStr os)]"
| "r_data_to_json b64 (HTTPS s) = svcb_to_json b64 ''HTTPS'' s"
| "r_data_to_json b64 (MX pref ex) =
     JObj [(''type'', JStr ''MX''), (''preference'', jnat pref), (''exchange'', JStr ex)]"
| "r_data_to_json b64 (NAPTR order pref flags services regexp replacement) =
     JObj [(''type'', JStr ''NAPTR''), (''order'', jnat order), (''preference'', jnat pref),
           (''flags'', JStr flags), (''services'', JStr services), (''regexp'', JStr regexp),
           (''replacement'', JStr replacement)]"
| "r_data_to_json b64 (NS nm) = JObj [(''type'', JStr ''NS''), (''nsdname'', JStr nm)]"
| "r_data_to_json b64 (NullRecord data) = JObj [(''type'', JStr ''NULL''), (''data'', JStr (b64 data))]"
| "r_data_to_json b64 (OPT version codes) =
     JObj [(''type'', JStr ''OPT''), (''version'', jnat version),
           (''opt_codes'', JArr (map (\<lambda>(code, data). JObj [(''code'', jnat code), (''data'', JStr (b64 data))]) codes))]"
| "r_data_to_json b64 (PTR nm) = JObj [(''type'', JStr ''PTR''), (''ptrdname'', JStr nm)]"
| "r_data_to_json b64 (SOA mname rname serial refresh retry expire minimum) =
     JObj [(''type'', JStr ''SOA''), (''mname'', JStr mname), (''rname'', JStr rname), (''serial'', jnat serial),
           (''refresh'', jint refresh), (''retry'', jint retry), (''expire'', jint expire),
           (''minimum'', jnat minimum)]"
| "r_data_to_json b64 (SRV priority weight port target) =
     JObj [(''type'', JStr ''SRV''), (''priority'', jnat priority), (''weight'', jnat weight),
           (''port'', jnat port), (''target'', JStr target)]"
| "r_data_to_json b64 (SVCB s) = svcb_to_json b64 ''SVCB'' s"
| "r_data_to_json b64 (TXT attributes) =
     JObj [(''type'', JStr ''TXT''), (''txt_data'', JArr (map (JStr \<circ> txt_string) attributes))]"
| "r_data_to_json b64 (WKS address protocol bit_map) =
     JObj [(''type'', JStr ''WKS''), (''address'', JStr (ipv4_display address)), (''protocol'', jnat protocol),
           (''bit_map'', JStr (b64 bit_map))]"
| "r_data_to_json b64 OtherRecord = JObj [(''type'', JStr ''UNKNOWN'')]"

definition resource_record_to_json :: "(bytes \<Rightarrow> string) \<Rightarrow> 'a resource_record_scheme \<Rightarrow> json" where
  "resource_record_to_json b64 rr =
     JObj [(''name'', JStr (rr_name rr)), (''ttl'', jnat (rr_ttl rr)),
           (''rdata'', r_data_to_json b64 (rr_data rr))]"


subsection \<open>Sessions and key pairs\<close>

record grant_session_info =
  gi_homeserver :: string
  gi_pubky :: string
  gi_client_id :: string
  gi_capabilities :: "string list"
  gi_grant_id :: string
  gi_token_expires_at :: u64
  gi_grant_expires_at :: u64
  gi_created_at :: u64

text \<open>
  What the source asks of an SDK session: its key and capabilities, its grant (with the secret the
  grant exports) and its cookie secret; and \<open>to_text\<close>, \<^verbatim>\<open>serde_json::to_string\<close>.
\<close>

record ('s, 'w) session_api =
  public_key_of :: "'s \<Rightarrow> string"
  capabilities_of :: "'s \<Rightarrow> string list"
  as_grant :: "'s \<Rightarrow> bool"
  grant_session_info :: "'s \<Rightarrow> 'w \<Rightarrow> grant_session_info \<times> 'w"
  export_local_secret :: "'s \<Rightarrow> 'w \<Rightarrow> string option \<times> 'w"
  as_cookie :: "'s \<Rightarrow> bool"
  export_secret :: "'s \<Rightarrow> string option"
  to_text :: "json \<Rightarrow> string result"

definition text_or_failure :: "('s, 'w) session_api \<Rightarrow> json \<Rightarrow> string" where
  "text_or_failure S j = (case to_text S j of Inr t \<Rightarrow> t | Inl e \<Rightarrow> ''Failed to serialize JSON: '' @ e)"

definition session_to_json :: "('s, 'w) session_api \<Rightarrow> 's \<Rightarrow> string" where
  "session_to_json S session =
     text_or_failure S (JObj [(''pubky'', JStr (public_key_of S session)),
       (''capabilities'', JArr (map JStr (capabilities_of S session)))])"

definition session_to_json_with_grant_secret ::
  "('s, 'w) session_api \<Rightarrow> 's \<Rightarrow> string \<Rightarrow> 'w \<Rightarrow> string result \<times> 'w" where
  "session_to_json_with_grant_secret S session grant_secret w =
     (if \<not> as_grant S session then (Inl ''Session is not grant-backed'', w)
      else case grant_session_info S session w of
        (i, w) \<Rightarrow>
          (map_sum (\<lambda>e. ''Failed to serialize session: '' @ e) (\<lambda>t. t)
             (to_text S (JObj [
                (''homeserver'', JStr (gi_homeserver i)), (''pubky'', JStr (gi_pubky i)),
                (''client_id'', JStr (gi_client_id i)),
                (''capabilities'', JArr (map JStr (gi_capabilities i))),
                (''grant_id'', JStr (gi_grant_id i)),
                (''token_expires_at'', jnat (gi_token_expires_at i)),
                (''grant_expires_at'', jnat (gi_grant_expires_at i)),
                (''created_at'', jnat (gi_created_at i)),
                (''grant_secret'', JStr grant_secret)])), w))"

definition session_to_json_with_cookie_secret :: "('s, 'w) session_api \<Rightarrow> 's \<Rightarrow> string \<Rightarrow> string" where
  "session_to_json_with_cookie_secret S session session_secret =
     text_or_failure S (JObj [(''pubky'', JStr (public_key_of S session)),
       (''capabilities'', JArr (map JStr (capabilities_of S session))),
       (''session_secret'', JStr session_secret)])"

definition export_grant_session_secret ::
  "('s, 'w) session_api \<Rightarrow> 's \<Rightarrow> 'w \<Rightarrow> string result \<times> 'w" where
  "export_grant_session_secret S session w =
     (if \<not> as_grant S session then (Inl ''Session is not grant-backed'', w)
      else case export_local_secret S session w of
        (Some secret, w) \<Rightarrow> (Inr secret, w)
      | (None, w) \<Rightarrow> (Inl ''Session secret is unavailable for this session type'', w))"

definition export_cookie_session_secret :: "('s, 'w) session_api \<Rightarrow> 's \<Rightarrow> string result" where
  "export_cookie_session_secret S session =
     (if \<not> as_cookie S session then Inl ''Session is not cookie-backed''
      else case export_secret S session of
        Some secret \<Rightarrow> Inr secret
      | None \<Rightarrow> Inl ''Session secret is unavailable for this session type'')"

text \<open>The session of a finished grant sign-in, with the secret that restores it.\<close>

definition grant_session_text :: "('s, 'w) session_api \<Rightarrow> 's \<Rightarrow> 'w \<Rightarrow> string result \<times> 'w" where
  "grant_session_text S session w =
     and_then (export_grant_session_secret S session w) (session_to_json_with_grant_secret S session)"

subsection \<open>Properties\<close>

lemma svc_params_keys_ok: "hm_ok m \<Longrightarrow> hm_ok (fold (\<lambda>(code, p) m. hm_insert (show_nat (unat code)) (f p) m) ps m)"
  by (induction ps arbitrary: m) (auto simp: case_prod_beta)

lemma svc_params_get:
  "hm_get (fold (\<lambda>(code, p) m. hm_insert (show_nat (unat code)) (f p) m) ps m) (show_nat (unat (c :: u16))) =
     (case map_of (rev ps) c of Some p \<Rightarrow> Some (f p) | None \<Rightarrow> hm_get m (show_nat (unat c)))"
  by (induction ps arbitrary: m)
    (auto simp: map_of_append map_add_def word_unat_eq_iff split: option.splits)

text \<open>
  The parameters of an HTTPS or SVCB record all reach the host: the JSON object has
  distinct keys, and under every key code it has the last parameter with that code, or nothing when
  there is none.
\<close>

theorem svc_params_json_complete:
  "hm_ok (svc_params_to_json b64 ps) \<and>
   hm_get (svc_params_to_json b64 ps) (show_nat (unat code)) =
     map_option (svc_param_to_json b64) (map_of (rev ps) code)"
  using svc_params_keys_ok [of "[]"] svc_params_get [of "svc_param_to_json b64" ps "[]" code]
  by (auto simp: svc_params_to_json_def split: option.splits)

lemma map_sum_Inr_iff: "map_sum f (\<lambda>t. t) x = Inr t \<longleftrightarrow> x = Inr t"
  by (cases x) auto

text \<open>
  A finished sign-in is handed over only with the secret that restores it: whenever a text
  is answered, the session is backed by a grant, the grant exported its secret, and the text is that of
  an object which carries this very secret and the key of the user.
\<close>

theorem grant_session_text_carries_secret:
  assumes "grant_session_text S session w = (Inr t, w')"
  shows "as_grant S session \<and>
    (\<exists>secret w1 i j. export_local_secret S session w = (Some secret, w1) \<and>
       grant_session_info S session w1 = (i, w') \<and> to_text S j = Inr t \<and>
       field j ''grant_secret'' = Some (JStr secret) \<and> field j ''pubky'' = Some (JStr (gi_pubky i)))"
proof -
  obtain secret w1 where s: "export_grant_session_secret S session w = (Inr secret, w1)"
    and t: "session_to_json_with_grant_secret S session secret w1 = (Inr t, w')"
    using assms by (auto simp: grant_session_text_def and_then_Inr)
  from s have g: "as_grant S session" and e: "export_local_secret S session w = (Some secret, w1)"
    by (auto simp: export_grant_session_secret_def split: if_splits option.splits prod.splits)
  obtain i w2 where i: "grant_session_info S session w1 = (i, w2)" by fastforce
  from t g i have "w2 = w'" and "\<exists>j. to_text S j = Inr t \<and> field j ''grant_secret'' = Some (JStr secret) \<and>
      field j ''pubky'' = Some (JStr (gi_pubky i))"
    by (auto simp: session_to_json_with_grant_secret_def map_sum_Inr_iff hm_get_def intro!: exI)
  with g e i show ?thesis by blast
qed

definition example_sessions :: "(nat, unit) session_api" where
  "example_sessions =
     \<lparr>public_key_of = \<lambda>_. ''pk'', capabilities_of = \<lambda>_. [''/:rw''], as_grant = \<lambda>s. s = 1,
      grant_session_info = \<lambda>_ w. (\<lparr>gi_homeserver = ''hs'', gi_pubky = ''pk'', gi_client_id = ''app'',
        gi_capabilities = [], gi_grant_id = ''g'', gi_token_expires_at = 1, gi_grant_expires_at = 2,
        gi_created_at = 0\<rparr>, w),
      export_local_secret = \<lambda>_ w. (Some ''secret'', w), as_cookie = \<lambda>s. s = 2,
      export_secret = \<lambda>_. Some ''cookie'', to_text = \<lambda>_. Inr ''json''\<rparr>"

theorem grant_session_text_carries_secret_witness:
  "grant_session_text example_sessions 1 () = (Inr ''json'', ()) \<and>
   (\<exists>j. to_text example_sessions j = Inr ''json'' \<and> field j ''grant_secret'' = Some (JStr ''secret''))"
proof -
  have r: "grant_session_text example_sessions 1 () = (Inr ''json'', ())"
    by (simp add: grant_session_text_def export_grant_session_secret_def
        session_to_json_with_grant_secret_def example_sessions_def)
  then show ?thesis
    using grant_session_text_carries_secret [OF r] by (auto simp: example_sessions_def)
qed

end
