(* ===== verification/Keys.thy ===== *)
theory Keys
  imports Json_Utils
begin

section \<open>Keys, mnemonics and recovery files\<close>

text \<open>
  Models \<^verbatim>\<open>src/keypair.rs\<close>, \<^verbatim>\<open>keypair_to_json_string\<close> of \<^verbatim>\<open>src/utils.rs\<close> and the exports of \<^verbatim>\<open>src/lib.rs\<close>
  that only work on keys. The \<^verbatim>\<open>hex\<close>, \<^verbatim>\<open>base64\<close>, \<^verbatim>\<open>bip39\<close> and \<^verbatim>\<open>pubky\<close> crates enter as the parameter
  \<open>key_api\<close>; what the code relies on of them is \<open>key_contract\<close>.
\<close>

record ('k, 'm, 'w) key_api =
  hex_decode :: "string \<Rightarrow> bytes option"
  hex_encode :: "bytes \<Rightarrow> string"
  base64_decode :: "string \<Rightarrow> bytes result"
  base64_encode :: "bytes \<Rightarrow> string"
  from_secret :: "bytes \<Rightarrow> 'k"
  secret_key_of :: "'k \<Rightarrow> bytes"
  z32_of :: "'k \<Rightarrow> string"
  uri_of :: "'k \<Rightarrow> string"
  random_keypair :: "'w \<Rightarrow> 'k \<times> 'w"
  generate_in :: "nat \<Rightarrow> 'w \<Rightarrow> 'm result \<times> 'w"
  parse_in :: "string \<Rightarrow> 'm result"
  mnemonic_text :: "'m \<Rightarrow> string"
  to_seed :: "'m \<Rightarrow> bytes"
  recovery_create :: "'k \<Rightarrow> string \<Rightarrow> 'w \<Rightarrow> bytes \<times> 'w"
  recovery_decrypt :: "bytes \<Rightarrow> string \<Rightarrow> 'k result"
  json_text :: "json \<Rightarrow> string result"

subsection \<open>\<^verbatim>\<open>keypair.rs\<close>\<close>

definition get_keypair_from_secret_key :: "('k, 'm, 'w) key_api \<Rightarrow> string \<Rightarrow> 'k result" where
  "get_keypair_from_secret_key K secret_key =
     (case hex_decode K secret_key of
        None \<Rightarrow> Inl ''Failed to decode secret key''
      | Some bytes \<Rightarrow>
          if length bytes \<noteq> 32 then Inl ''Failed to convert secret key to 32-byte array''
          else Inr (from_secret K bytes))"

definition get_secret_key_from_keypair :: "('k, 'm, 'w) key_api \<Rightarrow> 'k \<Rightarrow> string" where
  "get_secret_key_from_keypair K keypair = hex_encode K (secret_key_of K keypair)"

definition generate_keypair :: "('k, 'm, 'w) key_api \<Rightarrow> 'w \<Rightarrow> 'k \<times> 'w" where
  "generate_keypair K w = random_keypair K w"

definition generate_mnemonic :: "('k, 'm, 'w) key_api \<Rightarrow> 'w \<Rightarrow> string result \<times> 'w" where
  "generate_mnemonic K w =
     (case generate_in K 12 w of
        (Inl e, w) \<Rightarrow> (Inl (''Failed to generate mnemonic: '' @ e), w)
      | (Inr m, w) \<Rightarrow> (Inr (mnemonic_text K m), w))"

definition mnemonic_to_secret_key :: "('k, 'm, 'w) key_api \<Rightarrow> string \<Rightarrow> string result" where
  "mnemonic_to_secret_key K phrase =
     (case parse_in K phrase of
        Inl _ \<Rightarrow> Inl ''Invalid mnemonic phrase''
      | Inr m \<Rightarrow>
          let key = take 32 (to_seed K m) in
          if length key \<noteq> 32 then Inl ''Failed to extract secret key from seed''
          else Inr (hex_encode K key))"

definition mnemonic_to_keypair :: "('k, 'm, 'w) key_api \<Rightarrow> string \<Rightarrow> 'k result" where
  "mnemonic_to_keypair K phrase =
     and_try (mnemonic_to_secret_key K phrase) (get_keypair_from_secret_key K)"

definition generate_mnemonic_and_keypair :: "('k, 'm, 'w) key_api \<Rightarrow> 'w \<Rightarrow> (string \<times> 'k) result \<times> 'w" where
  "generate_mnemonic_and_keypair K w =
     and_then (generate_mnemonic K w) (\<lambda>mnemonic w.
       (and_try (mnemonic_to_keypair K mnemonic) (\<lambda>keypair. Inr (mnemonic, keypair)), w))"

definition validate_mnemonic :: "('k, 'm, 'w) key_api \<Rightarrow> string \<Rightarrow> bool" where
  "validate_mnemonic K phrase = (\<not> isl (parse_in K phrase))"

definition keypair_to_json_string :: "('k, 'm, 'w) key_api \<Rightarrow> 'k \<Rightarrow> string option \<Rightarrow> string result" where
  "keypair_to_json_string K keypair mnemonic =
     map_sum (\<lambda>_. ''Error serializing to JSON'') (\<lambda>t. t)
       (json_text K (JObj ([(''secret_key'', JStr (get_secret_key_from_keypair K keypair)),
          (''public_key'', JStr (z32_of K keypair)), (''uri'', JStr (uri_of K keypair))] @
          (case mnemonic of None \<Rightarrow> [] | Some m \<Rightarrow> [(''mnemonic'', JStr m)]))))"

subsection \<open>The exports\<close>

definition respond :: "string result \<Rightarrow> string list" where
  "respond r = (case r of Inr data \<Rightarrow> create_response_vector False data | Inl e \<Rightarrow> create_response_vector True e)"

definition json_or_error :: "('k, 'm, 'w) key_api \<Rightarrow> json \<Rightarrow> string list" where
  "json_or_error K j =
     respond (map_sum (\<lambda>e. ''Failed to serialize JSON: '' @ e) (\<lambda>t. t) (json_text K j))"

definition generate_secret_key :: "('k, 'm, 'w) key_api \<Rightarrow> 'w \<Rightarrow> string list \<times> 'w" where
  "generate_secret_key K w =
     (case generate_keypair K w of
        (keypair, w) \<Rightarrow>
          (json_or_error K (JObj [(''secret_key'', JStr (get_secret_key_from_keypair K keypair)),
             (''public_key'', JStr (z32_of K keypair)), (''uri'', JStr (uri_of K keypair))]), w))"

definition get_public_key_from_secret_key :: "('k, 'm, 'w) key_api \<Rightarrow> string \<Rightarrow> string list" where
  "get_public_key_from_secret_key K secret_key =
     (case get_keypair_from_secret_key K secret_key of
        Inl e \<Rightarrow> create_response_vector True e
      | Inr keypair \<Rightarrow>
          json_or_error K (JObj [(''public_key'', JStr (z32_of K keypair)), (''uri'', JStr (uri_of K keypair))]))"

definition create_recovery_file :: "('k, 'm, 'w) key_api \<Rightarrow> string \<Rightarrow> string \<Rightarrow> 'w \<Rightarrow> string list \<times> 'w" where
  "create_recovery_file K secret_key passphrase w =
     (if secret_key = [] \<or> passphrase = []
      then (create_response_vector True ''Secret key and passphrase must not be empty'', w)
      else case get_keypair_from_secret_key K secret_key of
        Inl e \<Rightarrow> (create_response_vector True e, w)
      | Inr keypair \<Rightarrow>
          (case recovery_create K keypair passphrase w of
             (bytes, w) \<Rightarrow> (create_response_vector False (base64_encode K bytes), w)))"

definition decrypt_recovery_file :: "('k, 'm, 'w) key_api \<Rightarrow> string \<Rightarrow> string \<Rightarrow> string list" where
  "decrypt_recovery_file K file passphrase =
     (if file = [] \<or> passphrase = []
      then create_response_vector True ''Recovery file and passphrase must not be empty''
      else case base64_decode K file of
        Inl e \<Rightarrow> create_response_vector True (''Failed to decode recovery file: '' @ e)
      | Inr bytes \<Rightarrow>
          (case recovery_decrypt K bytes passphrase of
             Inl _ \<Rightarrow> create_response_vector True ''Failed to decrypt recovery file''
           | Inr keypair \<Rightarrow> create_response_vector False (get_secret_key_from_keypair K keypair)))"

definition generate_mnemonic_phrase :: "('k, 'm, 'w) key_api \<Rightarrow> 'w \<Rightarrow> string list \<times> 'w" where
  "generate_mnemonic_phrase K w = (case generate_mnemonic K w of (r, w) \<Rightarrow> (respond r, w))"

definition mnemonic_phrase_to_keypair :: "('k, 'm, 'w) key_api \<Rightarrow> string \<Rightarrow> string list" where
  "mnemonic_phrase_to_keypair K phrase =
     respond (and_try (mnemonic_to_keypair K phrase) (\<lambda>keypair. keypair_to_json_string K keypair None))"

definition generate_mnemonic_phrase_and_keypair :: "('k, 'm, 'w) key_api \<Rightarrow> 'w \<Rightarrow> string list \<times> 'w" where
  "generate_mnemonic_phrase_and_keypair K w =
     (case generate_mnemonic_and_keypair K w of
        (r, w) \<Rightarrow>
          (respond (and_try r (\<lambda>(mnemonic, keypair). keypair_to_json_string K keypair (Some mnemonic))), w))"

definition validate_mnemonic_phrase :: "('k, 'm, 'w) key_api \<Rightarrow> string \<Rightarrow> string list" where
  "validate_mnemonic_phrase K phrase = create_response_vector False (show_bool (validate_mnemonic K phrase))"

subsection \<open>Properties\<close>

text \<open>
  What the crates document: hex decodes what it encodes, and a seed has 64 bytes.
\<close>

definition key_contract :: "('k, 'm, 'w) key_api \<Rightarrow> bool" where
  "key_contract K \<longleftrightarrow>
     (\<forall>b. hex_decode K (hex_encode K b) = Some b) \<and> (\<forall>m. length (to_seed K m) = 64)"

text \<open>A toy instance: a key is one byte, its secret that byte 32 times.\<close>

definition bytes_text :: "bytes \<Rightarrow> string" where
  "bytes_text = map (\<lambda>b. char_of (unat b))"

definition text_bytes :: "string \<Rightarrow> bytes" where
  "text_bytes = map (\<lambda>c. of_nat (of_char c))"

lemma text_bytes_text [simp]: "text_bytes (bytes_text b) = b"
proof -
  have "unat x mod 256 = unat x" for x :: u8
    using unsigned_less [of x, where ?'a = nat] by simp
  then show ?thesis by (simp add: text_bytes_def bytes_text_def comp_def)
qed

definition example_keys :: "(u8, string, unit) key_api" where
  "example_keys =
     \<lparr>hex_decode = \<lambda>s. Some (text_bytes s), hex_encode = bytes_text,
      base64_decode = \<lambda>s. Inr (text_bytes s), base64_encode = bytes_text,
      from_secret = hd, secret_key_of = replicate 32,
      z32_of = \<lambda>_. ''pk'', uri_of = \<lambda>_. ''pubky://pk'', random_keypair = \<lambda>w. (7, w),
      generate_in = \<lambda>_ w. (Inr ''words'', w), parse_in = \<lambda>s. if s = ''words'' then Inr s else Inl ''bad'',
      mnemonic_text = \<lambda>m. m, to_seed = \<lambda>_. replicate 64 7, recovery_create = \<lambda>k p w. ([k], w),
      recovery_decrypt = \<lambda>b p. Inr (hd b), json_text = \<lambda>_. Inr ''json''\<rparr>"

lemma example_keys_contract: "key_contract example_keys"
  by (simp add: key_contract_def example_keys_def)

text \<open>
  The check of a phrase and its use agree: a phrase is reported valid exactly when it
  yields a key pair, and the key pair generated with a phrase is the one the phrase yields later.
\<close>

theorem mnemonic_valid_iff_yields_keypair:
  assumes "key_contract K"
  shows "(validate_mnemonic K phrase \<longleftrightarrow> (\<exists>k. mnemonic_to_keypair K phrase = Inr k)) \<and>
    (\<forall>m k w w'. generate_mnemonic_and_keypair K w = (Inr (m, k), w') \<longrightarrow>
       validate_mnemonic K m \<and> mnemonic_to_keypair K m = Inr k)"
proof -
  have valid: "validate_mnemonic K p \<longleftrightarrow> (\<exists>k. mnemonic_to_keypair K p = Inr k)" for p
  proof (cases "parse_in K p")
    case (Inr m)
    have "length (to_seed K m) = 64" and "hex_decode K (hex_encode K b) = Some b" for b
      using assms by (simp_all add: key_contract_def)
    with Inr show ?thesis
      by (simp add: validate_mnemonic_def mnemonic_to_keypair_def mnemonic_to_secret_key_def
          get_keypair_from_secret_key_def)
  qed (simp add: validate_mnemonic_def mnemonic_to_keypair_def mnemonic_to_secret_key_def)
  moreover have "mnemonic_to_keypair K m = Inr k"
    if "generate_mnemonic_and_keypair K w = (Inr (m, k), w')" for m k w w'
    using that by (auto simp: generate_mnemonic_and_keypair_def and_then_Inr and_try_Inr)
  ultimately show ?thesis by blast
qed

theorem mnemonic_valid_iff_yields_keypair_witness:
  "mnemonic_to_keypair example_keys ''words'' = Inr 7 \<and> validate_mnemonic example_keys ''words'' \<and>
   \<not> validate_mnemonic example_keys ''word''"
proof -
  have ok: "mnemonic_to_keypair example_keys ''words'' = Inr 7"
    by (simp add: mnemonic_to_keypair_def mnemonic_to_secret_key_def get_keypair_from_secret_key_def example_keys_def)
  have bad: "\<nexists>k. mnemonic_to_keypair example_keys ''word'' = Inr k"
    by (simp add: mnemonic_to_keypair_def mnemonic_to_secret_key_def example_keys_def)
  show ?thesis
    using mnemonic_valid_iff_yields_keypair [OF example_keys_contract, of "''words''"]
      mnemonic_valid_iff_yields_keypair [OF example_keys_contract, of "''word''"] ok bad by blast
qed

end
