(* ===== verification/Deep_Links.thy ===== *)
theory Deep_Links
  imports Sdk_Errors
begin

section \<open>Deep links\<close>

text \<open>
  Models \<^verbatim>\<open>src/auth.rs\<close>, the detail records of \<^verbatim>\<open>src/types.rs\<close> it fills, and \<^verbatim>\<open>capability_record\<close> of
  \<^verbatim>\<open>src/grant_features.rs\<close>. The SDK's \<^verbatim>\<open>DeepLink\<close> enters as a datatype with the parameters the source
  reads of each variant (keys in their \<^verbatim>\<open>z32\<close> text, capabilities in their \<^verbatim>\<open>Display\<close> text); its parser
  and the base64 encoder are parameters.
\<close>

record x_callbacks =
  cb_source :: "string option"
  cb_success :: "string option"
  cb_error :: "string option"
  cb_cancel :: "string option"

record link_head =
  link_scheme :: string
  link_intent :: string
  link_url :: string
  link_callbacks :: x_callbacks

datatype grant_relay_channel = SharedSecret bytes | Hpke bytes

datatype grant_approval_fmt = BareGrant | SignedApprovalV1

record grant_params =
  gp_relay :: string
  gp_capabilities :: "string list"
  gp_channel :: grant_relay_channel
  gp_client_id :: string
  gp_client_pk :: string
  gp_format :: grant_approval_fmt

text \<open>Homeservers and signup tokens follow the parameters of the variants that carry them.\<close>

datatype deep_link =
    Signin link_head string "string list" bytes
  | Signup link_head string "string list" bytes string "string option"
  | DirectSignup link_head string "string option"
  | SigninGrant link_head grant_params
  | SignupGrant link_head grant_params string "string option"
  | SeedExport link_head bytes

record capability =
  cap_path :: string
  permission :: string

record pubky_deep_link_details =
  dl_scheme :: string
  dl_kind :: string
  dl_url :: string
  dl_relay :: "string option"
  dl_capabilities :: "capability list option"
  dl_secret :: "string option"
  dl_homeserver :: "string option"
  dl_signup_token :: "string option"
  dl_client_id :: "string option"
  dl_client_public_key :: "string option"
  dl_approval_format :: "string option"
  dl_ephemeral_public_key :: "string option"
  dl_callbacks :: x_callbacks

record pubky_auth_details =
  ad_relay :: string
  ad_capabilities :: "capability list"
  ad_secret :: "string option"
  ad_kind :: string
  ad_homeserver :: "string option"
  ad_signup_token :: "string option"
  ad_client_id :: "string option"
  ad_client_public_key :: "string option"
  ad_approval_format :: "string option"
  ad_ephemeral_public_key :: "string option"
  ad_callbacks :: x_callbacks

definition capability_record :: "string \<Rightarrow> capability" where
  "capability_record c =
     (case rsplit_once (CHR '':'') c of
        Some (p, perm) \<Rightarrow> \<lparr>cap_path = p, permission = perm\<rparr>
      | None \<Rightarrow> \<lparr>cap_path = c, permission = []\<rparr>)"

definition convert_capabilities :: "string list \<Rightarrow> capability list" where
  "convert_capabilities cs =
     map (\<lambda>c. case rsplit_once (CHR '':'') c of
                Some (p, perm) \<Rightarrow> \<lparr>cap_path = p, permission = perm\<rparr>
              | None \<Rightarrow> \<lparr>cap_path = c, permission = []\<rparr>) cs"

fun grant_approval_format :: "grant_approval_fmt \<Rightarrow> string" where
  "grant_approval_format BareGrant = ''bare_grant''"
| "grant_approval_format SignedApprovalV1 = ''signed_approval_v1''"

fun grant_shared_secret :: "grant_relay_channel \<Rightarrow> bytes option" where
  "grant_shared_secret (SharedSecret secret) = Some secret"
| "grant_shared_secret (Hpke key) = None"

fun grant_ephemeral_public_key :: "(bytes \<Rightarrow> string) \<Rightarrow> grant_relay_channel \<Rightarrow> string option" where
  "grant_ephemeral_public_key b64 (SharedSecret secret) = None"
| "grant_ephemeral_public_key b64 (Hpke key) = Some (b64 key)"

definition auth_deep_link_details ::
  "(bytes \<Rightarrow> string) \<Rightarrow> link_head \<Rightarrow> string \<Rightarrow> string list \<Rightarrow> bytes option \<Rightarrow> string option \<Rightarrow> string option \<Rightarrow>
   string option \<Rightarrow> string option \<Rightarrow> string option \<Rightarrow> string option \<Rightarrow> pubky_deep_link_details" where
  "auth_deep_link_details b64 h r caps secret homeserver signup_token client_id client_public_key
       approval_format ephemeral_public_key =
     \<lparr>dl_scheme = link_scheme h, dl_kind = link_intent h, dl_url = link_url h, dl_relay = Some r,
      dl_capabilities = Some (convert_capabilities caps), dl_secret = map_option b64 secret,
      dl_homeserver = homeserver, dl_signup_token = signup_token, dl_client_id = client_id,
      dl_client_public_key = client_public_key, dl_approval_format = approval_format,
      dl_ephemeral_public_key = ephemeral_public_key, dl_callbacks = link_callbacks h\<rparr>"

definition non_auth_deep_link_details ::
  "link_head \<Rightarrow> string option \<Rightarrow> string option \<Rightarrow> string option \<Rightarrow> string option \<Rightarrow> string option \<Rightarrow>
   pubky_deep_link_details" where
  "non_auth_deep_link_details h homeserver signup_token secret client_id client_public_key =
     \<lparr>dl_scheme = link_scheme h, dl_kind = link_intent h, dl_url = link_url h, dl_relay = None,
      dl_capabilities = None, dl_secret = secret,
      dl_homeserver = homeserver, dl_signup_token = signup_token, dl_client_id = client_id,
      dl_client_public_key = client_public_key, dl_approval_format = None,
      dl_ephemeral_public_key = None, dl_callbacks = link_callbacks h\<rparr>"

fun deep_link_details :: "(bytes \<Rightarrow> string) \<Rightarrow> deep_link \<Rightarrow> pubky_deep_link_details" where
  "deep_link_details b64 (Signin h r caps secret) =
     auth_deep_link_details b64 h r caps (Some secret) None None None None None None"
| "deep_link_details b64 (Signup h r caps secret hs st) =
     auth_deep_link_details b64 h r caps (Some secret) (Some hs) st None None None None"
| "deep_link_details b64 (DirectSignup h hs st) =
     non_auth_deep_link_details h (Some hs) st None None None"
| "deep_link_details b64 (SigninGrant h p) =
     auth_deep_link_details b64 h (gp_relay p) (gp_capabilities p) (grant_shared_secret (gp_channel p))
       None None (Some (gp_client_id p)) (Some (gp_client_pk p))
       (Some (grant_approval_format (gp_format p))) (grant_ephemeral_public_key b64 (gp_channel p))"
| "deep_link_details b64 (SignupGrant h p hs st) =
     auth_deep_link_details b64 h (gp_relay p) (gp_capabilities p) (grant_shared_secret (gp_channel p))
       (Some hs) st (Some (gp_client_id p)) (Some (gp_client_pk p))
       (Some (grant_approval_format (gp_format p))) (grant_ephemeral_public_key b64 (gp_channel p))"
| "deep_link_details b64 (SeedExport h secret) =
     non_auth_deep_link_details h None None (Some (b64 secret)) None None"

definition parse_pubky_deep_link ::
  "(string \<Rightarrow> deep_link result) \<Rightarrow> (bytes \<Rightarrow> string) \<Rightarrow> string \<Rightarrow> pubky_deep_link_details result" where
  "parse_pubky_deep_link from_str b64 url =
     (case from_str url of Inl e \<Rightarrow> Inl e | Inr link \<Rightarrow> Inr (deep_link_details b64 link))"

definition auth_intents :: "string list" where
  "auth_intents = [''signin'', ''signup'', ''signin_grant'', ''signup_grant'']"

definition parse_pubky_auth_url ::
  "(string \<Rightarrow> deep_link result) \<Rightarrow> (bytes \<Rightarrow> string) \<Rightarrow> string \<Rightarrow> pubky_auth_details result" where
  "parse_pubky_auth_url from_str b64 url =
     (case parse_pubky_deep_link from_str b64 url of
        Inl e \<Rightarrow> Inl e
      | Inr d \<Rightarrow>
          if dl_kind d \<in> set auth_intents
          then (case dl_relay d of
                  None \<Rightarrow> Inl ''Missing relay''
                | Some r \<Rightarrow>
                    Inr \<lparr>ad_relay = r,
                         ad_capabilities = (case dl_capabilities d of None \<Rightarrow> [] | Some cs \<Rightarrow> cs),
                         ad_secret = dl_secret d, ad_kind = dl_kind d, ad_homeserver = dl_homeserver d,
                         ad_signup_token = dl_signup_token d, ad_client_id = dl_client_id d,
                         ad_client_public_key = dl_client_public_key d,
                         ad_approval_format = dl_approval_format d,
                         ad_ephemeral_public_key = dl_ephemeral_public_key d,
                         ad_callbacks = dl_callbacks d\<rparr>)
          else Inl (''Invalid auth URL intent '' @ [CHR 0x27] @ dl_kind d @ [CHR 0x27]))"

subsection \<open>Properties\<close>

definition head_of :: "deep_link \<Rightarrow> link_head" where
  "head_of l = (case l of Signin h _ _ _ \<Rightarrow> h | Signup h _ _ _ _ _ \<Rightarrow> h | DirectSignup h _ _ \<Rightarrow> h
     | SigninGrant h _ \<Rightarrow> h | SignupGrant h _ _ _ \<Rightarrow> h | SeedExport h _ \<Rightarrow> h)"

definition is_auth_link :: "deep_link \<Rightarrow> bool" where
  "is_auth_link l = (case l of DirectSignup _ _ _ \<Rightarrow> False | SeedExport _ _ \<Rightarrow> False | _ \<Rightarrow> True)"

lemma dl_kind_head [simp]: "dl_kind (deep_link_details b64 l) = link_intent (head_of l)"
  by (cases l) (auto simp: head_of_def auth_deep_link_details_def non_auth_deep_link_details_def)

lemma dl_relay_auth: "dl_relay (deep_link_details b64 l) = None \<longleftrightarrow> \<not> is_auth_link l"
  by (cases l) (auto simp: is_auth_link_def auth_deep_link_details_def non_auth_deep_link_details_def)

lemma dl_secret_xor_ephemeral:
  "is_auth_link l \<Longrightarrow> (dl_secret (deep_link_details b64 l) = None) \<longleftrightarrow>
     (dl_ephemeral_public_key (deep_link_details b64 l) \<noteq> None)"
proof (cases l)
  case (SigninGrant h p)
  then show ?thesis by (cases "gp_channel p") (simp_all add: auth_deep_link_details_def)
next
  case (SignupGrant h p hs st)
  then show ?thesis by (cases "gp_channel p") (simp_all add: auth_deep_link_details_def)
qed (auto simp: is_auth_link_def auth_deep_link_details_def)

text \<open>
  An auth URL is accepted exactly when it is an auth link with an auth intent: a link
  that exports a seed or signs up directly is refused whatever it calls itself, so its secret is never
  taken for a relay secret; and an accepted link has a relay and exactly one of a shared secret and a
  recipient key.
\<close>

theorem auth_url_accepted_iff_auth_link:
  assumes "from_str url = Inr l"
  shows "((\<exists>d. parse_pubky_auth_url from_str b64 url = Inr d) \<longleftrightarrow>
      is_auth_link l \<and> link_intent (head_of l) \<in> {''signin'', ''signup'', ''signin_grant'', ''signup_grant''}) \<and>
    (\<forall>d. parse_pubky_auth_url from_str b64 url = Inr d \<longrightarrow>
      Some (ad_relay d) = dl_relay (deep_link_details b64 l) \<and> ad_kind d = link_intent (head_of l) \<and>
      (ad_secret d = None \<longleftrightarrow> ad_ephemeral_public_key d \<noteq> None))"
  using assms dl_relay_auth [of b64 l] dl_secret_xor_ephemeral [of l b64]
  unfolding parse_pubky_auth_url_def parse_pubky_deep_link_def auth_intents_def
  by (auto split: option.splits if_splits)

definition example_head :: "string \<Rightarrow> link_head" where
  "example_head intent =
     \<lparr>link_scheme = ''pubkyauth'', link_intent = intent, link_url = ''pubkyauth://x'',
      link_callbacks = \<lparr>cb_source = None, cb_success = None, cb_error = None, cb_cancel = None\<rparr>\<rparr>"

theorem auth_url_accepted_iff_auth_link_witness:
  "\<not> (\<exists>d. parse_pubky_auth_url (\<lambda>_. Inr (SeedExport (example_head ''signin'') [1])) (\<lambda>_. ''AQ'') ''u'' = Inr d)"
  using auth_url_accepted_iff_auth_link [of "\<lambda>_. Inr (SeedExport (example_head ''signin'') [1])" "''u''"]
  by (simp add: is_auth_link_def)

lemma capability_record_join:
  "CHR '':'' \<in> set c \<Longrightarrow> cap_path (capability_record c) @ '':'' @ permission (capability_record c) = c"
  using rsplit_once_None [of "CHR '':''" c]
  by (cases "rsplit_once (CHR '':'') c") (auto simp: capability_record_def dest: rsplit_once_Some [THEN iffD1])

text \<open>
  A capability keeps its meaning when it is split for the host: the path and the
  permissions put together again are the capability, the permissions hold no colon, and both places that
  split capabilities agree.
\<close>

theorem capability_split_roundtrip:
  "(CHR '':'' \<in> set c \<longrightarrow> cap_path (capability_record c) @ '':'' @ permission (capability_record c) = c) \<and>
   (CHR '':'' \<notin> set c \<longrightarrow> cap_path (capability_record c) = c) \<and>
   CHR '':'' \<notin> set (permission (capability_record c)) \<and>
   convert_capabilities cs = map capability_record cs"
proof -
  have "convert_capabilities cs = map capability_record cs"
    by (simp add: convert_capabilities_def capability_record_def fun_eq_iff)
  moreover have "c = a @ CHR '':'' # b \<and> CHR '':'' \<notin> set b" if "rsplit_once (CHR '':'') c = Some (a, b)" for a b
    using that unfolding rsplit_once_Some .
  ultimately show ?thesis
    using rsplit_once_None [of "CHR '':''" c]
    by (cases "rsplit_once (CHR '':'') c") (force simp: capability_record_def)+
qed

theorem capability_split_roundtrip_witness:
  "cap_path (capability_record ''/pub/a:b/:rw'') @ '':'' @ permission (capability_record ''/pub/a:b/:rw'') =
     ''/pub/a:b/:rw''"
  using capability_split_roundtrip [of "''/pub/a:b/:rw''" "[]"] by simp

end
