(* ===== verification/Auth_Flow.thy ===== *)
theory Auth_Flow
  imports Grant_Resume Keys Deep_Links
begin

section \<open>The process-wide grant sign-in\<close>

text \<open>
  Models \<^verbatim>\<open>src/auth_flow.rs\<close> and, from \<^verbatim>\<open>src/lib.rs\<close>, \<^verbatim>\<open>start_grant_auth_flow\<close> and
  \<^verbatim>\<open>await_grant_auth_approval\<close>: the one pending flow of the process, in the slot \<^verbatim>\<open>GRANT_AUTH_FLOW\<close>
  beside the resume slot of theory \<open>Grant_Resume\<close>. The mutex of the slot is held only while it is read or
  written, so the SDK's flow operations are parameters that act on a world with both slots. The SDK's
  flow builder is driven by the list of calls made on it.
\<close>

subsection \<open>Data\<close>

record ('f, 'u) flow_slots =
  GRANT_AUTH_FLOW :: "'f option"
  slots_rest :: 'u

type_synonym ('f, 'u) flow_world = "('f, 'u) flow_slots slot_world"

definition put_flow :: "'f option \<Rightarrow> ('f, 'u) flow_world \<Rightarrow> ('f, 'u) flow_world" where
  "put_flow f w = w\<lparr>rest := (rest w)\<lparr>GRANT_AUTH_FLOW := f\<rparr>\<rparr>"

definition the_flow :: "('f, 'u) flow_world \<Rightarrow> 'f option" where
  "the_flow w = GRANT_AUTH_FLOW (rest w)"

definition resume_clear :: "('f, 'u) flow_world \<Rightarrow> ('f, 'u) flow_world" where
  "resume_clear w = w\<lparr>slot := slot_clear (slot w)\<rparr>"

record grant_auth_flow_state_record =
  rec_authorization_url :: string
  rec_client_key_secret :: bytes
  rec_approval_key_secret :: "bytes option"

record grant_auth_flow_config =
  cfg_capabilities :: string
  cfg_client_id :: string
  cfg_homeserver :: "string option"
  cfg_signup_token :: "string option"
  cfg_relay :: "string option"
  cfg_client_secret :: "bytes option"
  cfg_client_key_secret :: "bytes option"
  cfg_approval_format :: "grant_approval_fmt option"
  cfg_callbacks :: x_callbacks

datatype auth_flow_kind = KindSignin | KindSignup string "string option"

datatype flow_call =
    Builder string auth_flow_kind string
  | WithRelay string
  | WithClientSecret bytes
  | WithClientKeypair bytes
  | WithApprovalFormat grant_approval_fmt
  | WithXCallback x_callbacks

record ('f, 's, 'k, 'w) flow_api =
  flow_view_of :: "'f flow_view"
  flow_now :: "'w \<Rightarrow> instant"
  caps_try_from :: "string \<Rightarrow> string result"
  new_client_id :: "string \<Rightarrow> string result"
  key_try_from :: "string \<Rightarrow> string result"
  parse_relay_url :: "string \<Rightarrow> string result"
  flow_start :: "flow_call list \<Rightarrow> 'w \<Rightarrow> (sdk_error + 'f) \<times> 'w"
  flow_restore_state :: "grant_flow_state \<Rightarrow> 'w \<Rightarrow> (sdk_error + 'f) \<times> 'w"
  flow_poll_once :: "'f \<Rightarrow> 'w \<Rightarrow> (sdk_error + 's option) \<times> 'w"
  flow_await :: "'f \<Rightarrow> 'w \<Rightarrow> (sdk_error + 's) \<times> 'w"
  flow_sleep :: "duration \<Rightarrow> 'w \<Rightarrow> 'w"
  flow_sessions :: "('s, 'w) session_api"
  flow_keys :: "('k, string, unit) key_api"
  signin_blocking :: "'k \<Rightarrow> string \<Rightarrow> 'w \<Rightarrow> (sdk_error + 's) \<times> 'w"
  signin_cookie_blocking :: "'k \<Rightarrow> 'w \<Rightarrow> (sdk_error + 's) \<times> 'w"

type_synonym ('f, 's, 'k, 'u) flow_env = "('f, 's, 'k, ('f, 'u) flow_world) flow_api"

subsection \<open>Operations\<close>

definition bytes_32 :: "bytes \<Rightarrow> string \<Rightarrow> pubky_core_error + bytes" where
  "bytes_32 b name =
     (if length b = 32 then Inr b else Inl (Validation (name @ '' must contain exactly 32 bytes'')))"

definition opt_bytes_32 :: "bytes option \<Rightarrow> string \<Rightarrow> pubky_core_error + bytes option" where
  "opt_bytes_32 b name =
     (case b of None \<Rightarrow> Inr None | Some b \<Rightarrow> and_try (bytes_32 b name) (\<lambda>b. Inr (Some b)))"

definition state_record :: "'f flow_view \<Rightarrow> 'f \<Rightarrow> pubky_core_error + grant_auth_flow_state_record" where
  "state_record fv flow =
     (case save_local fv flow of
        None \<Rightarrow> Inl (State ''Grant flow does not use an exportable local signer'')
      | Some st \<Rightarrow> Inr \<lparr>rec_authorization_url = state_url st, rec_client_key_secret = client_key_secret st,
                        rec_approval_key_secret = approval_key_secret st\<rparr>)"

definition session_json ::
  "('f, 's, 'k, 'w) flow_api \<Rightarrow> 's \<Rightarrow> 'w \<Rightarrow> (pubky_core_error + string) \<times> 'w" where
  "session_json G session w =
     (case grant_session_text (flow_sessions G) session w of (r, w) \<Rightarrow> (map_sum State (\<lambda>t. t) r, w))"

definition replace_flow :: "'f \<Rightarrow> ('f, 'u) flow_world \<Rightarrow> ('f, 'u) flow_world" where
  "replace_flow flow w = put_flow (Some flow) (resume_clear w)"

text \<open>Everything \<^verbatim>\<open>start_grant_auth_flow_with_config\<close> checks before it starts a flow, in its order.\<close>

definition flow_calls ::
  "('f, 's, 'k, 'w) flow_api \<Rightarrow> grant_auth_flow_config \<Rightarrow> pubky_core_error + flow_call list" where
  "flow_calls G cfg =
     and_try (map_sum (\<lambda>e. Validation (''invalid capabilities: '' @ e)) (\<lambda>c. c) (caps_try_from G (cfg_capabilities cfg))) (\<lambda>caps.
     and_try (map_sum Validation (\<lambda>c. c) (parse_client_id (new_client_id G) (cfg_client_id cfg))) (\<lambda>cid.
     and_try (case cfg_homeserver cfg of
                None \<Rightarrow> Inr KindSignin
              | Some h \<Rightarrow> map_sum (\<lambda>e. Validation (''invalid homeserver public key: '' @ e))
                           (\<lambda>hk. KindSignup hk (cfg_signup_token cfg)) (key_try_from G h)) (\<lambda>kind.
     and_try (case cfg_relay cfg of
                None \<Rightarrow> Inr None
              | Some r \<Rightarrow> map_sum ParseFailed Some (parse_relay_url G r)) (\<lambda>rel.
     and_try (opt_bytes_32 (cfg_client_secret cfg) ''client_secret'') (\<lambda>client_secret.
     and_try (opt_bytes_32 (cfg_client_key_secret cfg) ''client_key_secret'') (\<lambda>key_secret.
       Inr ([Builder caps kind cid] @
            (case rel of None \<Rightarrow> [] | Some r \<Rightarrow> [WithRelay r]) @
            (case client_secret of None \<Rightarrow> [] | Some b \<Rightarrow> [WithClientSecret b]) @
            (case key_secret of None \<Rightarrow> [] | Some b \<Rightarrow> [WithClientKeypair b]) @
            (case cfg_approval_format cfg of None \<Rightarrow> [] | Some f \<Rightarrow> [WithApprovalFormat f]) @
            [WithXCallback (cfg_callbacks cfg)])))))))"

definition start_grant_auth_flow_with_config ::
  "('f, 's, 'k, 'u) flow_env \<Rightarrow> grant_auth_flow_config \<Rightarrow> ('f, 'u) flow_world \<Rightarrow>
   (pubky_core_error + grant_auth_flow_state_record) \<times> ('f, 'u) flow_world" where
  "start_grant_auth_flow_with_config G cfg w =
     (case flow_calls G cfg of
        Inl e \<Rightarrow> (Inl e, w)
      | Inr calls \<Rightarrow>
          (case flow_start G calls w of
             (Inl e, w) \<Rightarrow> (Inl (from_sdk_error e), w)
           | (Inr flow, w) \<Rightarrow>
               (case state_record (flow_view_of G) flow of
                  Inl e \<Rightarrow> (Inl e, w)
                | Inr st \<Rightarrow> (Inr st, replace_flow flow w))))"

definition no_flow :: pubky_core_error where
  "no_flow = State ''No Grant auth flow is in progress''"

definition save_grant_auth_flow ::
  "('f, 's, 'k, 'u) flow_env \<Rightarrow> ('f, 'u) flow_world \<Rightarrow> pubky_core_error + grant_auth_flow_state_record" where
  "save_grant_auth_flow G w =
     (case the_flow w of None \<Rightarrow> Inl no_flow | Some flow \<Rightarrow> state_record (flow_view_of G) flow)"

definition restore_grant_auth_flow ::
  "('f, 's, 'k, 'u) flow_env \<Rightarrow> grant_auth_flow_state_record \<Rightarrow> ('f, 'u) flow_world \<Rightarrow>
   (pubky_core_error + string) \<times> ('f, 'u) flow_world" where
  "restore_grant_auth_flow G st w =
     (case and_try (bytes_32 (rec_client_key_secret st) ''client_key_secret'') (\<lambda>key.
           and_try (opt_bytes_32 (rec_approval_key_secret st) ''approval_key_secret'') (\<lambda>approval.
             Inr \<lparr>state_url = rec_authorization_url st, client_key_secret = key, approval_key_secret = approval\<rparr>)) of
        Inl e \<Rightarrow> (Inl e, w)
      | Inr state \<Rightarrow>
          (case flow_restore_state G state w of
             (Inl e, w) \<Rightarrow> (Inl (from_sdk_error e), w)
           | (Inr flow, w) \<Rightarrow> (Inr (authorization_url (flow_view_of G) flow), replace_flow flow w)))"

definition poll_grant_auth_flow ::
  "('f, 's, 'k, 'u) flow_env \<Rightarrow> ('f, 'u) flow_world \<Rightarrow> (pubky_core_error + string option) \<times> ('f, 'u) flow_world" where
  "poll_grant_auth_flow G w =
     (case the_flow w of
        None \<Rightarrow> (Inl no_flow, w)
      | Some flow \<Rightarrow>
          (case flow_poll_once G flow (put_flow None w) of
             (Inr (Some session), w) \<Rightarrow>
               (case session_json G session (resume_clear w) of (r, w) \<Rightarrow> (map_sum (\<lambda>e. e) Some r, w))
           | (Inr None, w) \<Rightarrow> (Inr None, put_flow (Some flow) w)
           | (Inl e, w) \<Rightarrow> (Inl (from_sdk_error e), put_flow (Some flow) w)))"

definition await_grant_auth_flow ::
  "('f, 's, 'k, 'u) flow_env \<Rightarrow> ('f, 'u) flow_world \<Rightarrow> (pubky_core_error + string) \<times> ('f, 'u) flow_world" where
  "await_grant_auth_flow G w =
     (case the_flow w of
        None \<Rightarrow> (Inl no_flow, w)
      | Some flow \<Rightarrow>
          (case flow_await G flow (put_flow None w) of
             (Inl e, w) \<Rightarrow> (Inl (from_sdk_error e), resume_clear w)
           | (Inr session, w) \<Rightarrow> session_json G session (resume_clear w)))"

definition cancel_grant_auth_flow :: "('f, 'u) flow_world \<Rightarrow> ('f, 'u) flow_world" where
  "cancel_grant_auth_flow w = resume_clear (put_flow None w)"

definition sign_in_grant_blocking ::
  "('f, 's, 'k, 'w) flow_api \<Rightarrow> string \<Rightarrow> string \<Rightarrow> 'w \<Rightarrow> (pubky_core_error + string) \<times> 'w" where
  "sign_in_grant_blocking G secret_key client_id w =
     and_then (map_sum Validation (\<lambda>k. k) (get_keypair_from_secret_key (flow_keys G) secret_key), w) (\<lambda>keypair w.
     and_then (map_sum Validation (\<lambda>c. c) (parse_client_id (new_client_id G) client_id), w) (\<lambda>cid w.
     and_then (apfst (map_sum from_sdk_error (\<lambda>s. s)) (signin_blocking G keypair cid w)) (session_json G)))"

definition sign_in_cookie_blocking ::
  "('f, 's, 'k, 'w) flow_api \<Rightarrow> string \<Rightarrow> 'w \<Rightarrow> (pubky_core_error + string) \<times> 'w" where
  "sign_in_cookie_blocking G secret_key w =
     and_then (map_sum Validation (\<lambda>k. k) (get_keypair_from_secret_key (flow_keys G) secret_key), w) (\<lambda>keypair w.
     and_then (apfst (map_sum from_sdk_error (\<lambda>s. s)) (signin_cookie_blocking G keypair w)) (\<lambda>session w.
     and_then (map_sum State (\<lambda>t. t) (export_cookie_session_secret (flow_sessions G) session), w) (\<lambda>secret w.
       (Inr (session_to_json_with_cookie_secret (flow_sessions G) session secret), w))))"

subsection \<open>The string-based pair\<close>

definition start_grant_auth_flow ::
  "('f, 's, 'k, 'u) flow_env \<Rightarrow> string \<Rightarrow> string \<Rightarrow> ('f, 'u) flow_world \<Rightarrow> string list \<times> ('f, 'u) flow_world" where
  "start_grant_auth_flow G capabilities client_id w =
     (case caps_try_from G capabilities of
        Inl e \<Rightarrow> (create_response_vector True (''Invalid capabilities: '' @ e), w)
      | Inr caps \<Rightarrow>
     (case parse_client_id (new_client_id G) client_id of
        Inl e \<Rightarrow> (create_response_vector True e, w)
      | Inr cid \<Rightarrow>
     (case flow_start G [Builder caps KindSignin cid] w of
        (Inl e, w) \<Rightarrow> (create_response_vector True (''Failed to start auth flow: '' @ full_error_chain e), w)
      | (Inr flow, w) \<Rightarrow>
          (create_response_vector False (authorization_url (flow_view_of G) flow),
           put_flow (Some flow) (w\<lparr>slot := slot_remember (flow_view_of G) flow (flow_now G w) (slot w)\<rparr>)))))"

definition resume_env_of ::
  "('f, 's, 'k, 'u) flow_env \<Rightarrow> ('f, 's, ('f, 'u) flow_world) resume_env" where
  "resume_env_of G =
     \<lparr>now = flow_now G, sdk_await_approval = flow_await G, sdk_restore = flow_restore_state G,
      sleep = flow_sleep G\<rparr>"

definition await_grant_auth_approval ::
  "('f, 's, 'k, 'u) flow_env \<Rightarrow> ('f, 'u) flow_world \<Rightarrow> (string list \<times> ('f, 'u) flow_world) option" where
  "await_grant_auth_approval G w =
     (case the_flow w of
        None \<Rightarrow> Some (create_response_vector True ''No auth flow in progress'', w)
      | Some flow \<Rightarrow>
          (case await_resuming (flow_view_of G) (resume_env_of G) flow (put_flow None w) of
             None \<Rightarrow> None
           | Some (Inr session, w) \<Rightarrow>
               (case grant_session_text (flow_sessions G) session w of (r, w) \<Rightarrow> Some (respond r, w))
           | Some (Inl e, w) \<Rightarrow>
               Some (create_response_vector True (''Auth approval failed: '' @ full_error_chain e), w)))"

definition start_auth_flow ::
  "('f, 's, 'k, 'u) flow_env \<Rightarrow> string \<Rightarrow> string \<Rightarrow> ('f, 'u) flow_world \<Rightarrow> string list \<times> ('f, 'u) flow_world" where
  "start_auth_flow G capabilities client_id w = start_grant_auth_flow G capabilities client_id w"

definition await_auth_approval ::
  "('f, 's, 'k, 'u) flow_env \<Rightarrow> ('f, 'u) flow_world \<Rightarrow> (string list \<times> ('f, 'u) flow_world) option" where
  "await_auth_approval G w = await_grant_auth_approval G w"


subsection \<open>Properties\<close>

text \<open>
  An example: flow 1 is approved with session 1, every other flow is pending; the world only counts.
\<close>

definition example_flows :: "(nat, nat, u8, nat) flow_env" where
  "example_flows =
     \<lparr>flow_view_of = \<lparr>authorization_url = \<lambda>_. ''pubkyauth:x'', query_pairs = \<lambda>_. [(''relay'', ''https://r'')],
        save_local = \<lambda>_. Some \<lparr>state_url = ''pubkyauth:x'', client_key_secret = replicate 32 1,
          approval_key_secret = None\<rparr>\<rparr>,
      flow_now = \<lambda>_. 0, caps_try_from = Inr, new_client_id = Inr, key_try_from = Inr, parse_relay_url = Inr,
      flow_start = \<lambda>_ w. (Inr 1, w), flow_restore_state = \<lambda>_ w. (Inr 1, w),
      flow_poll_once = \<lambda>f w. (Inr (if f = 1 then Some 1 else None), w), flow_await = \<lambda>_ w. (Inr 1, w),
      flow_sleep = \<lambda>_ w. w,
      flow_sessions = \<lparr>public_key_of = \<lambda>_. ''pk'', capabilities_of = \<lambda>_. [], as_grant = \<lambda>_. True,
        grant_session_info = \<lambda>_ w. (\<lparr>gi_homeserver = ''hs'', gi_pubky = ''pk'', gi_client_id = ''app'',
          gi_capabilities = [], gi_grant_id = ''g'', gi_token_expires_at = 1, gi_grant_expires_at = 2,
          gi_created_at = 0\<rparr>, w),
        export_local_secret = \<lambda>_ w. (Some ''secret'', w), as_cookie = \<lambda>_. False,
        export_secret = \<lambda>_. None, to_text = \<lambda>_. Inr ''json''\<rparr>,
      flow_keys = example_keys, signin_blocking = \<lambda>_ _ w. (Inr 1, w),
      signin_cookie_blocking = \<lambda>_ w. (Inr 1, w)\<rparr>"

definition example_slots :: "nat \<Rightarrow> (nat, nat) flow_world" where
  "example_slots f =
     \<lparr>slot = \<lparr>GENERATION = 1, PENDING = Some example_pending\<rparr>,
      rest = \<lparr>GRANT_AUTH_FLOW = Some f, slots_rest = 0\<rparr>\<rparr>"

lemma example_session_text:
  "grant_session_text (flow_sessions example_flows) s w = (Inr ''json'', w)"
  by (simp add: example_flows_def grant_session_text_def export_grant_session_secret_def
      session_to_json_with_grant_secret_def)

lemma example_poll: "flow_poll_once example_flows f w = (Inr (if f = 1 then Some 1 else None), w)"
  by (simp add: example_flows_def)

lemma example_the_flow: "the_flow (example_slots f) = Some f"
  by (simp add: the_flow_def example_slots_def)

lemma slot_frame [simp]:
  "slot (put_flow f w) = slot w" "the_flow (put_flow f w) = f" "the_flow (resume_clear w) = the_flow w"
  "PENDING (slot (resume_clear w)) = None"
  by (simp_all add: put_flow_def the_flow_def resume_clear_def slot_clear_def)

text \<open>
  A saved sign-in can be restored: when the SDK restores a flow to the state it was saved
  with, restoring a saved record of 32-byte keys succeeds, and saving again answers the same record.
\<close>

lemma save_restore_roundtrip:
  assumes "save_grant_auth_flow G w = Inr r" and "length (rec_client_key_secret r) = 32"
    and "\<And>b. rec_approval_key_secret r = Some b \<Longrightarrow> length b = 32"
    and "\<And>st v. \<exists>f v'. flow_restore_state G st v = (Inr f, v') \<and> save_local (flow_view_of G) f = Some st"
  shows "\<exists>url w'. restore_grant_auth_flow G r v = (Inr url, w') \<and> save_grant_auth_flow G w' = Inr r"
proof -
  let ?st = "\<lparr>state_url = rec_authorization_url r, client_key_secret = rec_client_key_secret r,
    approval_key_secret = rec_approval_key_secret r\<rparr>"
  obtain f v' where "flow_restore_state G ?st v = (Inr f, v')" "save_local (flow_view_of G) f = Some ?st"
    using assms(4) by blast
  moreover have "opt_bytes_32 (rec_approval_key_secret r) ''approval_key_secret'' = Inr (rec_approval_key_secret r)"
    using assms(3) by (cases "rec_approval_key_secret r") (auto simp: opt_bytes_32_def bytes_32_def)
  ultimately show ?thesis
    using assms(2)
    by (simp add: restore_grant_auth_flow_def bytes_32_def replace_flow_def save_grant_auth_flow_def state_record_def)
qed



text \<open>
  A cancelled sign-in can come back: when the flow is cancelled while a poll holds it and the
  poll finds nothing, the poll puts the flow, with its keys, back into the slot the cancellation emptied.
\<close>

theorem poll_can_revive_cancelled_flow:
  assumes "the_flow w = Some flow"
    and "flow_poll_once G flow (put_flow None w) = (Inr None, cancel_grant_auth_flow v)"
  shows "fst (poll_grant_auth_flow G w) = Inr None \<and> the_flow (snd (poll_grant_auth_flow G w)) = Some flow"
  using assms by (simp add: poll_grant_auth_flow_def)

theorem poll_can_revive_cancelled_flow_witness:
  "the_flow (snd (poll_grant_auth_flow
     (example_flows\<lparr>flow_poll_once := \<lambda>_ w. (Inr None, cancel_grant_auth_flow w)\<rparr>) (example_slots 2))) = Some 2"
  using poll_can_revive_cancelled_flow [of "example_slots 2" 2
      "example_flows\<lparr>flow_poll_once := \<lambda>_ w. (Inr None, cancel_grant_auth_flow w)\<rparr>"]
  by (simp add: the_flow_def example_slots_def)

end
