(* ===== verification/Sign_In_Races.thy ===== *)
theory Sign_In_Races
  imports Auth_Flow
begin

section \<open>Overlapping calls of the process-wide sign-in\<close>

text \<open>
  Models how the exports of theory \<open>Auth_Flow\<close> interleave. They meet in three places: the flow slot
  \<^verbatim>\<open>GRANT_AUTH_FLOW\<close>, the counter \<^verbatim>\<open>GENERATION\<close> and the resume slot \<^verbatim>\<open>PENDING\<close>. Each access is one atomic step:
  a critical section of one of the two mutexes, which no call holds while it waits, or one operation on
  the counter. So \<^verbatim>\<open>remember\<close> and \<^verbatim>\<open>clear\<close> are two steps each, and a call that takes the flow out works on it
  outside the lock.

  A call is the point it has reached. What the SDK answers (a flow that starts, a poll that finds nothing,
  an approval, a dead relay) and how long a call of \<^verbatim>\<open>await_with\<close> sleeps are left open, so the runs here
  include those of the code. Flow objects are numbered as they are built.
\<close>

subsection \<open>The calls and their steps\<close>

datatype sign_in_pc =
    StartBegin
  | Remember nat
  | RememberBumped nat u64
  | PutFlow nat
  | ReplaceBegin
  | Clear "nat option"
  | ClearBumped "nat option"
  | CancelBegin
  | PollBegin
  | Polling nat
  | AwaitBegin
  | Awaiting nat
  | ApprovalBegin
  | Approving nat
  | Listening nat "pending_grant_flow option"
  | Failed pending_grant_flow
  | Checked pending_grant_flow
  | Slept pending_grant_flow
  | Restoring pending_grant_flow
  | Forgetting pending_grant_flow
  | Returned "pending_grant_flow option"

text \<open>
  The places the calls share. \<open>bumps\<close> counts how often the counter was bumped, which the counter itself
  does modulo \<open>2\<^sup>6\<^sup>4\<close>.
\<close>

record sign_ins =
  resume :: resume_slot
  flow_slot :: "nat option"
  built :: nat
  bumps :: nat
  calls :: "sign_in_pc list"

definition no_sign_ins :: sign_ins where
  "no_sign_ins = \<lparr>resume = \<lparr>GENERATION = 0, PENDING = None\<rparr>, flow_slot = None, built = 0, bumps = 0, calls = []\<rparr>"

definition goto :: "nat \<Rightarrow> sign_in_pc \<Rightarrow> sign_ins \<Rightarrow> sign_ins" where
  "goto i p s = s\<lparr>calls := (calls s)[i := p]\<rparr>"

definition bump :: "sign_ins \<Rightarrow> sign_ins" where
  "bump s = s\<lparr>resume := (resume s)\<lparr>GENERATION := GENERATION (resume s) + 1\<rparr>, bumps := Suc (bumps s)\<rparr>"

definition store :: "pending_grant_flow option \<Rightarrow> sign_ins \<Rightarrow> sign_ins" where
  "store p s = s\<lparr>resume := (resume s)\<lparr>PENDING := p\<rparr>\<rparr>"

definition own_pending :: "nat flow_view \<Rightarrow> nat \<Rightarrow> resume_slot \<Rightarrow> pending_grant_flow option" where
  "own_pending fv f sl =
     (case slot_current sl of
        Some p \<Rightarrow> if state_url (flow_state p) = authorization_url fv f then Some p else None
      | None \<Rightarrow> None)"

text \<open>\<open>call_step fv i p s s'\<close>: call \<open>i\<close>, which has reached \<open>p\<close>, takes one step.\<close>

inductive call_step :: "nat flow_view \<Rightarrow> nat \<Rightarrow> sign_in_pc \<Rightarrow> sign_ins \<Rightarrow> sign_ins \<Rightarrow> bool" for fv i where
  start_fails: "call_step fv i StartBegin s (goto i (Returned None) s)"
| start_builds: "call_step fv i StartBegin s (goto i (Remember (built s)) (s\<lparr>built := Suc (built s)\<rparr>))"
| remember_bumps: "call_step fv i (Remember f) s
    (goto i (RememberBumped f (GENERATION (resume s) + 1)) (bump s))"
| remember_stores: "call_step fv i (RememberBumped f gen) s (goto i (PutFlow f) (store (pending_for fv f gen t) s))"
| put: "call_step fv i (PutFlow f) s (goto i (Returned None) (s\<lparr>flow_slot := Some f\<rparr>))"
| replace_fails: "call_step fv i ReplaceBegin s (goto i (Returned None) s)"
| replace_builds: "call_step fv i ReplaceBegin s
    (goto i (Clear (Some (built s))) (s\<lparr>built := Suc (built s)\<rparr>))"
| clear_bumps: "call_step fv i (Clear k) s (goto i (ClearBumped k) (bump s))"
| clear_stores: "call_step fv i (ClearBumped k) s
    (goto i (case k of None \<Rightarrow> Returned None | Some f \<Rightarrow> PutFlow f) (store None s))"
| cancel_empties: "call_step fv i CancelBegin s (goto i (Clear None) (s\<lparr>flow_slot := None\<rparr>))"
| poll_no_flow: "flow_slot s = None \<Longrightarrow> call_step fv i PollBegin s (goto i (Returned None) s)"
| poll_takes: "flow_slot s = Some f \<Longrightarrow>
    call_step fv i PollBegin s (goto i (Polling f) (s\<lparr>flow_slot := None\<rparr>))"
| poll_approved: "call_step fv i (Polling f) s (goto i (Clear None) s)"
| poll_not_approved: "call_step fv i (Polling f) s (goto i (PutFlow f) s)"
| await_no_flow: "flow_slot s = None \<Longrightarrow> call_step fv i AwaitBegin s (goto i (Returned None) s)"
| await_takes: "flow_slot s = Some f \<Longrightarrow>
    call_step fv i AwaitBegin s (goto i (Awaiting f) (s\<lparr>flow_slot := None\<rparr>))"
| await_ends: "call_step fv i (Awaiting f) s (goto i (Clear None) s)"
| approval_no_flow: "flow_slot s = None \<Longrightarrow> call_step fv i ApprovalBegin s (goto i (Returned None) s)"
| approval_takes: "flow_slot s = Some f \<Longrightarrow>
    call_step fv i ApprovalBegin s (goto i (Approving f) (s\<lparr>flow_slot := None\<rparr>))"
| approval_reads: "call_step fv i (Approving f) s (goto i (Listening f (own_pending fv f (resume s))) s)"
| listen_ends: "call_step fv i (Listening f None) s (goto i (Returned None) s)"
| listen_over: "call_step fv i (Listening f (Some p)) s (goto i (Forgetting p) s)"
| listen_relay_dies: "call_step fv i (Listening f (Some p)) s (goto i (Failed p) s)"
| failed_unwanted: "\<not> is_current (generation p) (resume s) \<Longrightarrow>
    call_step fv i (Failed p) s (goto i (Forgetting p) s)"
| failed_wanted: "is_current (generation p) (resume s) \<Longrightarrow> call_step fv i (Failed p) s (goto i (Checked p) s)"
| checked_gives_up: "call_step fv i (Checked p) s (goto i (Forgetting p) s)"
| checked_sleeps: "call_step fv i (Checked p) s (goto i (Slept p) s)"
| slept_unwanted: "\<not> is_current (generation p) (resume s) \<Longrightarrow>
    call_step fv i (Slept p) s (goto i (Returned (Some p)) s)"
| slept_wanted: "is_current (generation p) (resume s) \<Longrightarrow> call_step fv i (Slept p) s (goto i (Restoring p) s)"
| restore_fails: "call_step fv i (Restoring p) s (goto i (Forgetting p) s)"
| restore_builds: "call_step fv i (Restoring p) s
    (goto i (Listening (built s) (Some p)) (s\<lparr>built := Suc (built s)\<rparr>))"
| forgets: "call_step fv i (Forgetting p) s
    (goto i (Returned (Some p)) (s\<lparr>resume := slot_forget (generation p) (resume s)\<rparr>))"

inductive_cases call_step_elims [elim!]:
  "call_step fv i StartBegin s s'" "call_step fv i (Remember f) s s'" "call_step fv i (RememberBumped f g) s s'"
  "call_step fv i (PutFlow f) s s'" "call_step fv i ReplaceBegin s s'" "call_step fv i (Clear k) s s'"
  "call_step fv i (ClearBumped k) s s'" "call_step fv i CancelBegin s s'" "call_step fv i PollBegin s s'"
  "call_step fv i (Polling f) s s'" "call_step fv i AwaitBegin s s'" "call_step fv i (Awaiting f) s s'"
  "call_step fv i ApprovalBegin s s'" "call_step fv i (Approving f) s s'" "call_step fv i (Listening f p') s s'"
  "call_step fv i (Failed p) s s'" "call_step fv i (Checked p) s s'" "call_step fv i (Slept p) s s'"
  "call_step fv i (Restoring p) s s'" "call_step fv i (Forgetting p) s s'" "call_step fv i (Returned r) s s'"

text \<open>The exports, by the point at which a call of each begins.\<close>

definition entry_points :: "sign_in_pc list" where
  "entry_points = [StartBegin, ReplaceBegin, CancelBegin, PollBegin, AwaitBegin, ApprovalBegin]"

inductive sign_in_step :: "nat flow_view \<Rightarrow> sign_ins \<Rightarrow> sign_ins \<Rightarrow> bool" for fv where
  call: "i < length (calls s) \<Longrightarrow> call_step fv i (calls s ! i) s s' \<Longrightarrow> sign_in_step fv s s'"
| arrive: "p \<in> set entry_points \<Longrightarrow> sign_in_step fv s (s\<lparr>calls := calls s @ [p]\<rparr>)"

inductive sign_ins_reachable :: "nat flow_view \<Rightarrow> sign_ins \<Rightarrow> bool" for fv where
  none: "sign_ins_reachable fv no_sign_ins"
| step: "sign_ins_reachable fv s \<Longrightarrow> sign_in_step fv s s' \<Longrightarrow> sign_ins_reachable fv s'"


lemma goto_simps [simp]:
  "resume (goto i p s) = resume s" "flow_slot (goto i p s) = flow_slot s" "built (goto i p s) = built s"
  "bumps (goto i p s) = bumps s" "calls (goto i p s) = (calls s)[i := p]"
  by (simp_all add: goto_def)

lemma bump_simps [simp]:
  "GENERATION (resume (bump s)) = GENERATION (resume s) + 1" "PENDING (resume (bump s)) = PENDING (resume s)"
  "flow_slot (bump s) = flow_slot s" "built (bump s) = built s" "bumps (bump s) = Suc (bumps s)"
  "calls (bump s) = calls s"
  by (simp_all add: bump_def)

lemma store_simps [simp]:
  "GENERATION (resume (store p s)) = GENERATION (resume s)" "PENDING (resume (store p s)) = p"
  "flow_slot (store p s) = flow_slot s" "built (store p s) = built s" "bumps (store p s) = bumps s"
  "calls (store p s) = calls s"
  by (simp_all add: store_def)

subsection \<open>A flow object has one owner\<close>

fun owns :: "sign_in_pc \<Rightarrow> nat option" where
  "owns (Remember f) = Some f"
| "owns (RememberBumped f gen) = Some f"
| "owns (PutFlow f) = Some f"
| "owns (Clear k) = k"
| "owns (ClearBumped k) = k"
| "owns (Polling f) = Some f"
| "owns (Awaiting f) = Some f"
| "owns (Approving f) = Some f"
| "owns (Listening f p) = Some f"
| "owns _ = None"

definition owner_inv :: "sign_ins \<Rightarrow> bool" where
  "owner_inv s \<longleftrightarrow>
     (\<forall>f. flow_slot s = Some f \<longrightarrow> f < built s) \<and>
     (\<forall>i<length (calls s). \<forall>f. owns (calls s ! i) = Some f \<longrightarrow> f < built s \<and> flow_slot s \<noteq> Some f) \<and>
     (\<forall>i<length (calls s). \<forall>j<length (calls s). \<forall>f.
        owns (calls s ! i) = Some f \<and> owns (calls s ! j) = Some f \<longrightarrow> i = j)"

text \<open>A step hands a flow on: from the slot or from the point before, or it builds a new one.\<close>

lemma owner_inv_move:
  assumes "owner_inv s" and "i < length (calls s)" and "calls s' = (calls s)[i := p]" and "built s \<le> built s'"
    and slot: "\<And>f. flow_slot s' = Some f \<Longrightarrow> flow_slot s = Some f \<or> owns (calls s ! i) = Some f"
    and new: "\<And>f. owns p = Some f \<Longrightarrow> flow_slot s' \<noteq> Some f \<and>
      (owns (calls s ! i) = Some f \<or> flow_slot s = Some f \<or> f = built s \<and> built s < built s')"
  shows "owner_inv s'"
proof -
  have old: "f < built s" if "flow_slot s = Some f \<or> owns (calls s ! j) = Some f \<and> j < length (calls s)" for f j
    using that assms(1) unfolding owner_inv_def by blast
  have one: "j = k" if "owns (calls s ! j) = Some f" "owns (calls s ! k) = Some f"
      "j < length (calls s)" "k < length (calls s)" for f j k
    using that assms(1) unfolding owner_inv_def by blast
  have apart: "flow_slot s \<noteq> Some f" if "owns (calls s ! j) = Some f" "j < length (calls s)" for f j
    using that assms(1) unfolding owner_inv_def by blast
  have others: "owns (calls s ! j) \<noteq> Some f" if "owns p = Some f" "j < length (calls s)" "j \<noteq> i" for f j
    using new [OF that(1)] that(2,3) old [of f j] one [of i f j] apart [of j f] assms(2) by blast
  show ?thesis
    unfolding owner_inv_def
  proof (intro conjI allI impI)
    show "f < built s'" if "flow_slot s' = Some f" for f
      using slot [OF that] old assms(2,4) by (meson less_le_trans)
    fix j f
    assume j: "j < length (calls s')" and f: "owns (calls s' ! j) = Some f"
    show "f < built s'"
      using j f old new [of f] assms(2-4) by (cases "j = i") (auto simp: nth_list_update dest: less_le_trans)
    show "flow_slot s' \<noteq> Some f"
      using j f new [of f] slot [of f] apart [of j f] one [of i f j] assms(2,3)
      by (cases "j = i") (auto simp: nth_list_update)
  next
    fix j k f
    assume "j < length (calls s')" "k < length (calls s')"
      and "owns (calls s' ! j) = Some f \<and> owns (calls s' ! k) = Some f"
    then show "j = k"
      using others [of f j] others [of f k] one [of j f k] assms(2,3)
      by (cases "j = i"; cases "k = i") (auto simp: nth_list_update)
  qed
qed

lemma owner_inv_call:
  assumes "owner_inv s" and "i < length (calls s)" and "call_step fv i (calls s ! i) s s'"
  shows "owner_inv s'"
proof -
  have "flow_slot s \<noteq> owns (calls s ! i) \<or> owns (calls s ! i) = None"
    using assms(1,2) unfolding owner_inv_def by (metis option.exhaust)
  moreover have "flow_slot s \<noteq> Some (built s)"
    using assms(1) unfolding owner_inv_def by blast
  ultimately show ?thesis
    using assms
    by (cases "calls s ! i")
      (auto intro!: owner_inv_move [OF assms(1,2)] split: option.splits)
qed

lemma owner_inv_arrive: "owner_inv s \<Longrightarrow> p \<in> set entry_points \<Longrightarrow> owner_inv (s\<lparr>calls := calls s @ [p]\<rparr>)"
  by (auto simp: owner_inv_def entry_points_def nth_append less_Suc_eq)

lemma owner_inv_reachable: "sign_ins_reachable fv s \<Longrightarrow> owner_inv s"
proof (induction rule: sign_ins_reachable.induct)
  case none
  show ?case by (simp add: owner_inv_def no_sign_ins_def)
next
  case (step s s')
  from step.hyps(2) show ?case
    by cases (use step.IH owner_inv_call owner_inv_arrive in blast)+
qed


subsection \<open>Generations under overlap\<close>

text \<open>
  The saved state a call works with, the generation a call has drawn but not stored yet, and whether a
  call stands between the two steps of \<^verbatim>\<open>remember\<close> or \<^verbatim>\<open>clear\<close>.
\<close>

fun knows :: "sign_in_pc \<Rightarrow> pending_grant_flow option" where
  "knows (Listening f p) = p"
| "knows (Failed p) = Some p"
| "knows (Checked p) = Some p"
| "knows (Slept p) = Some p"
| "knows (Restoring p) = Some p"
| "knows (Forgetting p) = Some p"
| "knows (Returned p) = p"
| "knows _ = None"

fun drawn :: "sign_in_pc \<Rightarrow> u64 option" where
  "drawn (RememberBumped f gen) = Some gen"
| "drawn _ = None"

fun unsettled :: "sign_in_pc \<Rightarrow> bool" where
  "unsettled (RememberBumped f gen) = True"
| "unsettled (ClearBumped k) = True"
| "unsettled _ = False"

fun asleep :: "sign_in_pc \<Rightarrow> bool" where
  "asleep (Checked p) = True"
| "asleep (Slept p) = True"
| "asleep _ = False"

fun over :: "sign_in_pc \<Rightarrow> bool" where
  "over (Returned p) = True"
| "over _ = False"

definition settled :: "sign_ins \<Rightarrow> bool" where
  "settled s \<longleftrightarrow> (\<forall>q\<in>set (calls s). \<not> unsettled q)"

text \<open>
  Generations are never drawn twice, what is drawn is stored once, and a state whose generation has
  passed is out of the slot or about to be overwritten.
\<close>

definition drawn_inv :: "sign_ins \<Rightarrow> bool" where
  "drawn_inv s \<longleftrightarrow>
     (\<forall>q\<in>set (calls s). \<forall>gen. drawn q = Some gen \<longrightarrow> unat gen \<le> bumps s \<and> \<not> slot_holds gen (resume s)) \<and>
     (\<forall>q\<in>set (calls s). \<forall>r\<in>set (calls s). \<forall>p. knows q = Some p \<longrightarrow> drawn r \<noteq> Some (generation p)) \<and>
     (\<forall>i<length (calls s). \<forall>j<length (calls s). \<forall>gen.
        drawn (calls s ! i) = Some gen \<and> drawn (calls s ! j) = Some gen \<longrightarrow> i = j)"

definition passed_inv :: "sign_ins \<Rightarrow> bool" where
  "passed_inv s \<longleftrightarrow>
     (\<forall>q\<in>set (calls s). \<forall>p. knows q = Some p \<longrightarrow>
        (asleep q \<longrightarrow> is_current (generation p) (resume s) \<or> \<not> slot_holds (generation p) (resume s) \<or> \<not> settled s) \<and>
        (over q \<longrightarrow> \<not> slot_holds (generation p) (resume s) \<or> \<not> settled s))"

definition count_inv :: "sign_ins \<Rightarrow> bool" where
  "count_inv s \<longleftrightarrow>
     GENERATION (resume s) = of_nat (bumps s) \<and>
     (\<forall>p. PENDING (resume s) = Some p \<longrightarrow> unat (generation p) \<le> bumps s) \<and>
     (\<forall>q\<in>set (calls s). \<forall>p. knows q = Some p \<longrightarrow> unat (generation p) \<le> bumps s)"

lemma slot_holds_iff: "slot_holds gen sl \<longleftrightarrow> (\<exists>p. PENDING sl = Some p \<and> generation p = gen)"
  by (simp add: slot_holds_def)

lemma own_pending_current: "own_pending fv f sl = Some p \<Longrightarrow> PENDING sl = Some p"
  by (auto simp: own_pending_def slot_current_def split: option.splits if_splits)

lemma slot_forget_pending:
  "GENERATION (slot_forget gen sl) = GENERATION sl"
  "PENDING (slot_forget gen sl) = Some p \<Longrightarrow> PENDING sl = Some p"
  "\<not> slot_holds gen (slot_forget gen sl)"
  by (auto simp: slot_forget_def slot_holds_def split: option.splits if_splits)

lemma call_step_calls:
  "call_step fv i q s s' \<Longrightarrow> \<exists>p. calls s' = (calls s)[i := p]"
  by (induction rule: call_step.induct) auto

lemma call_step_bumps: "call_step fv i q s s' \<Longrightarrow> bumps s \<le> bumps s'"
  by (induction rule: call_step.induct) auto

lemma sign_in_step_bumps: "sign_in_step fv s s' \<Longrightarrow> bumps s \<le> bumps s'"
  by (induction rule: sign_in_step.induct) (auto dest: call_step_bumps)

text \<open>The steps that leave the counter alone and at most empty the resume slot.\<close>

definition quiet_move :: "nat \<Rightarrow> sign_ins \<Rightarrow> sign_ins \<Rightarrow> bool" where
  "quiet_move i s s' \<longleftrightarrow>
     (let q = calls s ! i; p = calls s' ! i in
      calls s' = (calls s)[i := p] \<and> bumps s' = bumps s \<and> GENERATION (resume s') = GENERATION (resume s) \<and>
      (\<forall>r. PENDING (resume s') = Some r \<longrightarrow> PENDING (resume s) = Some r) \<and>
      drawn p = None \<and> \<not> unsettled q \<and>
      (\<forall>r. knows p = Some r \<longrightarrow>
         (knows q = Some r \<or> PENDING (resume s) = Some r) \<and>
         (asleep p \<longrightarrow> asleep q \<and> knows q = Some r \<or> is_current (generation r) (resume s)) \<and>
         (over p \<longrightarrow> \<not> slot_holds (generation r) (resume s') \<or>
            asleep q \<and> knows q = Some r \<and> \<not> is_current (generation r) (resume s))))"

lemma call_step_kinds:
  assumes "call_step fv i q s s'" and "calls s ! i = q" and "i < length (calls s)"
  shows "quiet_move i s s' \<or>
    (\<exists>f. q = Remember f \<and> s' = goto i (RememberBumped f (GENERATION (resume s) + 1)) (bump s)) \<or>
    (\<exists>k. q = Clear k \<and> s' = goto i (ClearBumped k) (bump s)) \<or>
    (\<exists>f gen t. q = RememberBumped f gen \<and> s' = goto i (PutFlow f) (store (pending_for fv f gen t) s)) \<or>
    (\<exists>k. q = ClearBumped k \<and>
       s' = goto i (case k of None \<Rightarrow> Returned None | Some f \<Rightarrow> PutFlow f) (store None s))"
  using assms
proof (cases rule: call_step.cases)
  case (approval_reads f)
  then show ?thesis
    using assms(2,3) own_pending_current [of fv f "resume s"]
    by (cases "own_pending fv f (resume s)") (auto simp: quiet_move_def)
next
  case (forgets p)
  then show ?thesis
    using assms(2,3) slot_forget_pending(2) [of "generation p" "resume s"]
    by (auto simp: quiet_move_def slot_forget_pending(1,3))
next
  case (remember_stores f gen t)
  then show ?thesis by blast
qed (simp_all add: quiet_move_def)


lemma set_update_cases: "q \<in> set (xs[i := p]) \<Longrightarrow> q = p \<or> q \<in> set xs"
  using set_update_subset_insert by fastforce

lemma set_update_keeps: "q \<in> set xs \<Longrightarrow> q \<noteq> xs ! i \<Longrightarrow> q \<in> set (xs[i := p])"
  by (metis in_set_conv_nth length_list_update nth_list_update_neq)

lemma quiet_move_simps:
  assumes "quiet_move i s s'"
  shows "calls s' = (calls s)[i := calls s' ! i]" and "bumps s' = bumps s"
    and "GENERATION (resume s') = GENERATION (resume s)"
    and "PENDING (resume s') = Some r \<Longrightarrow> PENDING (resume s) = Some r"
    and "drawn (calls s' ! i) = None" and "\<not> unsettled (calls s ! i)"
    and "knows (calls s' ! i) = Some r \<Longrightarrow> knows (calls s ! i) = Some r \<or> PENDING (resume s) = Some r"
    and "knows (calls s' ! i) = Some r \<Longrightarrow> asleep (calls s' ! i) \<Longrightarrow>
      asleep (calls s ! i) \<and> knows (calls s ! i) = Some r \<or> is_current (generation r) (resume s)"
    and "knows (calls s' ! i) = Some r \<Longrightarrow> over (calls s' ! i) \<Longrightarrow>
      \<not> slot_holds (generation r) (resume s') \<or>
      asleep (calls s ! i) \<and> knows (calls s ! i) = Some r \<and> \<not> is_current (generation r) (resume s)"
  using assms unfolding quiet_move_def Let_def by blast+

lemma quiet_holds: "quiet_move i s s' \<Longrightarrow> slot_holds gen (resume s') \<Longrightarrow> slot_holds gen (resume s)"
  unfolding slot_holds_def using quiet_move_simps(4) by blast

lemma quiet_settled: "quiet_move i s s' \<Longrightarrow> settled s' \<Longrightarrow> settled s"
  unfolding settled_def using quiet_move_simps(1,6) set_update_keeps by metis

lemma quiet_members [consumes 2, case_names new old]:
  assumes "quiet_move i s s'" and "q \<in> set (calls s')"
  obtains "q = calls s' ! i" | "q \<in> set (calls s)"
  using assms quiet_move_simps(1) set_update_cases by metis

lemma quiet_knows:
  assumes "quiet_move i s s'" and "i < length (calls s)" and "q \<in> set (calls s')" and "knows q = Some p"
  shows "PENDING (resume s) = Some p \<or> (\<exists>r\<in>set (calls s). knows r = Some p)"
  using assms(1,3)
proof (cases rule: quiet_members)
  case new
  then show ?thesis
    using quiet_move_simps(7) [OF assms(1)] assms(2,4) nth_mem by blast
qed (use assms(4) in blast)

lemma count_inv_quiet:
  assumes "quiet_move i s s'" and "i < length (calls s)" and "count_inv s"
  shows "count_inv s'"
  unfolding count_inv_def
proof (intro conjI allI ballI impI)
  show "GENERATION (resume s') = of_nat (bumps s')"
    using assms(3) quiet_move_simps(2,3) [OF assms(1)] by (simp add: count_inv_def)
next
  fix p assume "PENDING (resume s') = Some p"
  then show "unat (generation p) \<le> bumps s'"
    using assms(3) quiet_move_simps(2,4) [OF assms(1)] unfolding count_inv_def by metis
next
  fix q p assume "q \<in> set (calls s')" "knows q = Some p"
  then show "unat (generation p) \<le> bumps s'"
    using quiet_knows [OF assms(1,2)] assms(3) quiet_move_simps(2) [OF assms(1)]
    unfolding count_inv_def by fastforce
qed

lemma drawn_inv_quiet:
  assumes "quiet_move i s s'" and "i < length (calls s)" and "drawn_inv s"
  shows "drawn_inv s'"
proof -
  have drawn_old: "q \<in> set (calls s)" if "q \<in> set (calls s')" "drawn q = Some gen" for q gen
    using that quiet_members [OF assms(1)] quiet_move_simps(5) [OF assms(1)] by force
  have "drawn (calls s' ! j) = Some gen \<Longrightarrow> j < length (calls s') \<Longrightarrow> drawn (calls s ! j) = Some gen" for j gen
    using quiet_move_simps(1,5) [OF assms(1)]
    by (metis nth_list_update_neq option.distinct(1))
  moreover have "length (calls s') = length (calls s)"
    using quiet_move_simps(1) [OF assms(1)] by (metis length_list_update)
  moreover have "drawn r \<noteq> Some (generation p)"
    if "q \<in> set (calls s')" "r \<in> set (calls s')" "knows q = Some p" for q r p
    using drawn_old [OF that(2)] quiet_knows [OF assms(1,2) that(1,3)] assms(3)
    unfolding drawn_inv_def slot_holds_def by blast
  moreover have "unat gen \<le> bumps s' \<and> \<not> slot_holds gen (resume s')"
    if "q \<in> set (calls s')" "drawn q = Some gen" for q gen
    using drawn_old [OF that] that(2) assms(3) quiet_move_simps(2) [OF assms(1)] quiet_holds [OF assms(1)]
    unfolding drawn_inv_def by metis
  ultimately show ?thesis
    using assms(3) unfolding drawn_inv_def by (smt (verit))
qed

lemma passed_inv_quiet:
  assumes "quiet_move i s s'" and "i < length (calls s)" and "passed_inv s"
  shows "passed_inv s'"
  unfolding passed_inv_def
proof (intro ballI allI impI)
  fix q p assume q: "q \<in> set (calls s')" "knows q = Some p"
  have cur: "is_current (generation p) (resume s') = is_current (generation p) (resume s)"
    using quiet_move_simps(3) [OF assms(1)] by (simp add: is_current_def)
  have before: "(asleep r \<longrightarrow> is_current (generation p) (resume s) \<or> \<not> slot_holds (generation p) (resume s) \<or> \<not> settled s) \<and>
      (over r \<longrightarrow> \<not> slot_holds (generation p) (resume s) \<or> \<not> settled s)"
    if "r \<in> set (calls s)" "knows r = Some p" for r
    using assms(3) that unfolding passed_inv_def by blast
  from assms(1) q(1) show "(asleep q \<longrightarrow> is_current (generation p) (resume s') \<or> \<not> slot_holds (generation p) (resume s') \<or> \<not> settled s') \<and>
      (over q \<longrightarrow> \<not> slot_holds (generation p) (resume s') \<or> \<not> settled s')"
  proof (cases rule: quiet_members)
    case new
    have i: "calls s ! i \<in> set (calls s)" using assms(2) by simp
    note move = quiet_move_simps(8,9) [OF assms(1) q(2) [unfolded new]]
    show ?thesis
      using move before [OF i] quiet_holds [OF assms(1)] quiet_settled [OF assms(1)] unfolding cur new by blast
  next
    case old
    then show ?thesis
      using before [OF _ q(2)] quiet_holds [OF assms(1)] quiet_settled [OF assms(1)] cur by blast
  qed
qed


text \<open>A bump of the counter draws a generation nobody has seen, as long as the counter does not wrap.\<close>

lemma bump_generation:
  assumes "count_inv s" and "Suc (bumps s) < 2 ^ 64"
  shows "unat (GENERATION (resume s) + 1) = Suc (bumps s)"
proof -
  have "GENERATION (resume s) + 1 = of_nat (Suc (bumps s))"
    using assms(1) by (simp add: count_inv_def)
  then show ?thesis
    using assms(2) by (simp add: unat_of_nat del: of_nat_Suc)
qed

definition sign_in_inv :: "sign_ins \<Rightarrow> bool" where
  "sign_in_inv s \<longleftrightarrow> count_inv s \<and> drawn_inv s \<and> passed_inv s"

lemma drawn_inv_bump:
  assumes "count_inv s" and "drawn_inv s" and fresh: "unat (GENERATION (resume s) + 1) = Suc (bumps s)"
    and p: "knows p = None" "drawn p = None \<or> drawn p = Some (GENERATION (resume s) + 1)"
  shows "drawn_inv (goto i p (bump s))" (is "drawn_inv ?s")
proof -
  have known: "q \<in> set (calls s)" if "q \<in> set (calls ?s)" "knows q = Some r" for q r
    using set_update_cases [of q "calls s" i p] that p(1) by auto
  have small: "unat (generation r) \<le> bumps s" if "q \<in> set (calls s)" "knows q = Some r" for q r
    using that assms(1) unfolding count_inv_def by blast
  have low: "unat gen \<le> bumps s" if "q \<in> set (calls s)" "drawn q = Some gen" for q gen
    using that assms(2) unfolding drawn_inv_def by blast
  have holds: "slot_holds gen (resume ?s) = slot_holds gen (resume s)" for gen
    by (simp add: slot_holds_def)
  have one: "unat gen \<le> bumps ?s \<and> \<not> slot_holds gen (resume ?s)"
    if "q \<in> set (calls ?s)" "drawn q = Some gen" for q gen
  proof (cases "q \<in> set (calls s)")
    case True
    then show ?thesis using that(2) assms(2) unfolding drawn_inv_def holds by (auto simp: le_SucI)
  next
    case False
    then have "gen = GENERATION (resume s) + 1"
      using set_update_cases [of q "calls s" i p] that p(2) by auto
    then show ?thesis
      using assms(1) fresh unfolding holds by (auto simp: slot_holds_def count_inv_def)
  qed
  have two: "drawn r \<noteq> Some (generation t)"
    if "q \<in> set (calls ?s)" "r \<in> set (calls ?s)" "knows q = Some t" for q r t
    using set_update_cases [of r "calls s" i p] that(2) p(2) fresh small [OF known [OF that(1,3)] that(3)]
      known [OF that(1,3)] that(3) assms(2) unfolding drawn_inv_def by auto
  have three: "j = k" if "j < length (calls s)" "k < length (calls s)"
      "drawn ((calls s)[i := p] ! j) = Some gen" "drawn ((calls s)[i := p] ! k) = Some gen" for j k gen
    using that p(2) fresh low [OF nth_mem, of j gen] low [OF nth_mem, of k gen] assms(2) unfolding drawn_inv_def
    by (cases "j = i"; cases "k = i") (auto simp: nth_list_update)
  show ?thesis
    unfolding drawn_inv_def using one two three by simp
qed

lemma sign_in_inv_bump:
  assumes "sign_in_inv s" and "Suc (bumps s) < 2 ^ 64" and "i < length (calls s)"
    and p: "knows p = None" "unsettled p" "drawn p = None \<or> drawn p = Some (GENERATION (resume s) + 1)"
  shows "sign_in_inv (goto i p (bump s))" (is "sign_in_inv ?s")
proof -
  note inv = assms(1) [unfolded sign_in_inv_def]
  have fresh: "unat (GENERATION (resume s) + 1) = Suc (bumps s)"
    using bump_generation inv assms(2) by blast
  have known: "q \<in> set (calls s)" if "q \<in> set (calls ?s)" "knows q = Some r" for q r
    using set_update_cases [of q "calls s" i p] that p(1) by auto
  have small: "unat (generation r) \<le> bumps s" if "q \<in> set (calls s)" "knows q = Some r" for q r
    using that inv unfolding count_inv_def by blast
  have "count_inv ?s"
    using inv le_SucI [OF small [OF known]] unfolding count_inv_def by (auto simp: le_SucI)
  moreover have "\<not> settled ?s"
    using p(2) assms(3) unfolding settled_def by (auto intro!: bexI [of _ p] set_update_memI)
  then have "passed_inv ?s" by (simp add: passed_inv_def)
  moreover have "drawn_inv ?s"
    using drawn_inv_bump [OF _ _ fresh p(1,3)] inv by blast
  ultimately show ?thesis by (simp add: sign_in_inv_def)
qed

text \<open>What is stored is the generation the call has drawn, so it is no generation that a loop works with.\<close>

lemma sign_in_inv_store:
  assumes "sign_in_inv s" and "i < length (calls s)" and p: "knows p = None" "drawn p = None"
    and x: "\<And>r. x = Some r \<Longrightarrow> drawn (calls s ! i) = Some (generation r)"
  shows "sign_in_inv (goto i p (store x s))" (is "sign_in_inv ?s")
proof -
  note inv = assms(1) [unfolded sign_in_inv_def]
  have known: "q \<in> set (calls s)" if "q \<in> set (calls ?s)" "knows q = Some r" for q r
    using set_update_cases [of q "calls s" i p] that p(1) by auto
  have draws: "q \<in> set (calls s)" if "q \<in> set (calls ?s)" "drawn q = Some gen" for q gen
    using set_update_cases [of q "calls s" i p] that p(2) by auto
  have other: "j \<noteq> i \<and> drawn (calls s ! j) = Some gen"
    if "drawn ((calls s)[i := p] ! j) = Some gen" "j < length (calls s)" for j gen
    using that p(2) by (cases "j = i") auto
  have unknown: "\<not> slot_holds (generation t) (resume ?s)" if "q \<in> set (calls s)" "knows q = Some t" for q t
    using that x inv assms(2) unfolding drawn_inv_def slot_holds_def by (auto dest: nth_mem)
  have "count_inv ?s"
    using inv known x assms(2) unfolding count_inv_def drawn_inv_def by (auto dest: nth_mem)
  moreover have "passed_inv ?s"
    using known unknown unfolding passed_inv_def by blast
  moreover have "drawn_inv ?s"
  proof -
    have one: "unat gen \<le> bumps ?s \<and> \<not> slot_holds gen (resume ?s)"
      if q: "q \<in> set (calls ?s)" "drawn q = Some gen" for q gen
    proof -
      obtain j where j: "j < length (calls s)" "(calls s)[i := p] ! j = q"
        using q(1) by (auto simp: in_set_conv_nth)
      have "j \<noteq> i" "drawn (calls s ! j) = Some gen" using other j q(2) by blast+
      then have "drawn (calls s ! i) \<noteq> Some gen" "unat gen \<le> bumps s"
        using inv j(1) assms(2) nth_mem unfolding drawn_inv_def by blast+
      then show ?thesis using x by (auto simp: slot_holds_def)
    qed
    have two: "drawn r \<noteq> Some (generation t)"
      if "q \<in> set (calls ?s)" "r \<in> set (calls ?s)" "knows q = Some t" for q r t
      using draws [OF that(2)] known [OF that(1,3)] that(3) inv unfolding drawn_inv_def by blast
    have three: "j = k" if "j < length (calls s)" "k < length (calls s)"
        "drawn ((calls s)[i := p] ! j) = Some gen" "drawn ((calls s)[i := p] ! k) = Some gen" for j k gen
      using other [OF that(3,1)] other [OF that(4,2)] that(1,2) inv unfolding drawn_inv_def by blast
    show ?thesis
      unfolding drawn_inv_def using one two three by simp
  qed
  ultimately show ?thesis by (simp add: sign_in_inv_def)
qed

lemma sign_in_inv_call:
  assumes "sign_in_inv s" and "i < length (calls s)" and "call_step fv i (calls s ! i) s s'" and "bumps s' < 2 ^ 64"
  shows "sign_in_inv s'"
  using call_step_kinds [OF assms(3) refl assms(2)]
proof (elim disjE exE conjE)
  assume "quiet_move i s s'"
  then show ?thesis
    using count_inv_quiet drawn_inv_quiet passed_inv_quiet assms(1,2) unfolding sign_in_inv_def by blast
next
  fix f gen t assume "calls s ! i = RememberBumped f gen" "s' = goto i (PutFlow f) (store (pending_for fv f gen t) s)"
  then show ?thesis
    using sign_in_inv_store [OF assms(1,2), of "PutFlow f" "pending_for fv f gen t"] pending_for_generation
    by fastforce
qed (use assms(4) in \<open>auto intro!: sign_in_inv_bump [OF assms(1) _ assms(2)] sign_in_inv_store [OF assms(1,2)]
      split: option.splits\<close>)

lemma sign_in_inv_arrive:
  "sign_in_inv s \<Longrightarrow> p \<in> set entry_points \<Longrightarrow> sign_in_inv (s\<lparr>calls := calls s @ [p]\<rparr>)"
  by (auto simp: sign_in_inv_def count_inv_def drawn_inv_def passed_inv_def settled_def entry_points_def
      nth_append less_Suc_eq)

lemma sign_in_inv_reachable: "sign_ins_reachable fv s \<Longrightarrow> bumps s < 2 ^ 64 \<Longrightarrow> sign_in_inv s"
proof (induction rule: sign_ins_reachable.induct)
  case none
  show ?case
    by (simp add: sign_in_inv_def count_inv_def drawn_inv_def passed_inv_def no_sign_ins_def)
next
  case (step s s')
  then have "sign_in_inv s"
    using sign_in_step_bumps by fastforce
  with step.hyps(2) step.prems show ?case
    by cases (auto intro: sign_in_inv_call sign_in_inv_arrive)
qed


subsection \<open>The steps as a function\<close>

text \<open>All the steps a call can take next, with \<open>t\<close> the instant a sign-in is remembered at.\<close>

fun moves :: "nat flow_view \<Rightarrow> instant \<Rightarrow> nat \<Rightarrow> sign_in_pc \<Rightarrow> sign_ins \<Rightarrow> sign_ins list" where
  "moves fv t i StartBegin s =
     [goto i (Returned None) s, goto i (Remember (built s)) (s\<lparr>built := Suc (built s)\<rparr>)]"
| "moves fv t i (Remember f) s = [goto i (RememberBumped f (GENERATION (resume s) + 1)) (bump s)]"
| "moves fv t i (RememberBumped f gen) s = [goto i (PutFlow f) (store (pending_for fv f gen t) s)]"
| "moves fv t i (PutFlow f) s = [goto i (Returned None) (s\<lparr>flow_slot := Some f\<rparr>)]"
| "moves fv t i ReplaceBegin s =
     [goto i (Returned None) s, goto i (Clear (Some (built s))) (s\<lparr>built := Suc (built s)\<rparr>)]"
| "moves fv t i (Clear k) s = [goto i (ClearBumped k) (bump s)]"
| "moves fv t i (ClearBumped k) s =
     [goto i (case k of None \<Rightarrow> Returned None | Some f \<Rightarrow> PutFlow f) (store None s)]"
| "moves fv t i CancelBegin s = [goto i (Clear None) (s\<lparr>flow_slot := None\<rparr>)]"
| "moves fv t i PollBegin s =
     [case flow_slot s of None \<Rightarrow> goto i (Returned None) s | Some f \<Rightarrow> goto i (Polling f) (s\<lparr>flow_slot := None\<rparr>)]"
| "moves fv t i (Polling f) s = [goto i (Clear None) s, goto i (PutFlow f) s]"
| "moves fv t i AwaitBegin s =
     [case flow_slot s of None \<Rightarrow> goto i (Returned None) s | Some f \<Rightarrow> goto i (Awaiting f) (s\<lparr>flow_slot := None\<rparr>)]"
| "moves fv t i (Awaiting f) s = [goto i (Clear None) s]"
| "moves fv t i ApprovalBegin s =
     [case flow_slot s of None \<Rightarrow> goto i (Returned None) s | Some f \<Rightarrow> goto i (Approving f) (s\<lparr>flow_slot := None\<rparr>)]"
| "moves fv t i (Approving f) s = [goto i (Listening f (own_pending fv f (resume s))) s]"
| "moves fv t i (Listening f None) s = [goto i (Returned None) s]"
| "moves fv t i (Listening f (Some p)) s = [goto i (Forgetting p) s, goto i (Failed p) s]"
| "moves fv t i (Failed p) s =
     [if is_current (generation p) (resume s) then goto i (Checked p) s else goto i (Forgetting p) s]"
| "moves fv t i (Checked p) s = [goto i (Forgetting p) s, goto i (Slept p) s]"
| "moves fv t i (Slept p) s =
     [if is_current (generation p) (resume s) then goto i (Restoring p) s else goto i (Returned (Some p)) s]"
| "moves fv t i (Restoring p) s =
     [goto i (Forgetting p) s, goto i (Listening (built s) (Some p)) (s\<lparr>built := Suc (built s)\<rparr>)]"
| "moves fv t i (Forgetting p) s =
     [goto i (Returned (Some p)) (s\<lparr>resume := slot_forget (generation p) (resume s)\<rparr>)]"
| "moves fv t i (Returned p) s = []"

lemma moves_are_steps: "s' \<in> set (moves fv t i p s) \<Longrightarrow> call_step fv i p s s'"
  by (induction fv t i p s rule: moves.induct)
    (auto split: option.splits if_splits intro: call_step.intros
      call_step.clear_stores [of fv i None for fv i, simplified]
      call_step.clear_stores [of fv i "Some f" for fv i f, simplified])

lemma steps_are_moves: "call_step fv i p s s' \<Longrightarrow> \<exists>t. s' \<in> set (moves fv t i p s)"
  by (induction rule: call_step.induct) auto

text \<open>A schedule: which call arrives, and which call takes which of its steps.\<close>

datatype turn = Arrive sign_in_pc | Move nat nat

fun drive :: "nat flow_view \<Rightarrow> instant \<Rightarrow> turn list \<Rightarrow> sign_ins \<Rightarrow> sign_ins option" where
  "drive fv t [] s = Some s"
| "drive fv t (Arrive p # ts) s =
     (if p \<in> set entry_points then drive fv t ts (s\<lparr>calls := calls s @ [p]\<rparr>) else None)"
| "drive fv t (Move i n # ts) s =
     (if i < length (calls s) \<and> n < length (moves fv t i (calls s ! i) s)
      then drive fv t ts (moves fv t i (calls s ! i) s ! n) else None)"

lemma drive_run: "drive fv t ts s = Some s' \<Longrightarrow> (sign_in_step fv)\<^sup>*\<^sup>* s s'"
proof (induction fv t ts s rule: drive.induct)
  case (3 fv t i n ts s)
  then have "sign_in_step fv s (moves fv t i (calls s ! i) s ! n)"
    using sign_in_step.call [OF _ moves_are_steps [OF nth_mem]] by (auto split: if_splits)
  then show ?case
    using 3 by (auto intro: converse_rtranclp_into_rtranclp split: if_splits)
qed (auto intro: converse_rtranclp_into_rtranclp sign_in_step.arrive split: if_splits)

lemma run_reachable: "(sign_in_step fv)\<^sup>*\<^sup>* s s' \<Longrightarrow> sign_ins_reachable fv s \<Longrightarrow> sign_ins_reachable fv s'"
  by (induction rule: rtranclp_induct) (auto intro: sign_ins_reachable.step)

lemmas drive_reachable = run_reachable [OF drive_run]

lemmas drive_from_none = drive_reachable [OF _ sign_ins_reachable.none]

lemmas run_defs = no_sign_ins_def entry_points_def goto_def bump_def store_def

subsection \<open>No call waits for another\<close>

text \<open>
  No call holds one of the locks while it waits for anything, so a call that has not returned can always
  go on. All but the resume loop return after at most four steps of their own, whatever the others do; the
  loop is bounded by its window (theory \<open>Grant_Resume\<close>).
\<close>

fun steps_left :: "sign_in_pc \<Rightarrow> nat option" where
  "steps_left StartBegin = Some 4"
| "steps_left (Remember f) = Some 3"
| "steps_left (RememberBumped f gen) = Some 2"
| "steps_left (PutFlow f) = Some 1"
| "steps_left ReplaceBegin = Some 4"
| "steps_left (Clear k) = Some (case k of None \<Rightarrow> 2 | Some f \<Rightarrow> 3)"
| "steps_left (ClearBumped k) = Some (case k of None \<Rightarrow> 1 | Some f \<Rightarrow> 2)"
| "steps_left CancelBegin = Some 3"
| "steps_left PollBegin = Some 4"
| "steps_left (Polling f) = Some 3"
| "steps_left AwaitBegin = Some 4"
| "steps_left (Awaiting f) = Some 3"
| "steps_left (Returned p) = Some 0"
| "steps_left _ = None"

lemma call_can_go_on: "\<not> over p \<Longrightarrow> \<exists>s'. call_step fv i p s s'"
proof -
  assume "\<not> over p"
  then have "moves fv t i p s \<noteq> []" for t
    by (cases "(fv, t, i, p, s)" rule: moves.cases) auto
  then show ?thesis
    using moves_are_steps by (metis last_in_set)
qed

lemma call_comes_closer:
  assumes "call_step fv i p s s'" and "i < length (calls s)" and "steps_left p = Some n"
  shows "\<exists>m<n. steps_left (calls s' ! i) = Some m"
  using assms by (cases rule: call_step.cases) (auto split: option.splits)

subsection \<open>A call that runs alone\<close>

definition lone_step :: "nat flow_view \<Rightarrow> nat \<Rightarrow> sign_ins \<Rightarrow> sign_ins \<Rightarrow> bool" where
  "lone_step fv i s s' \<longleftrightarrow> i < length (calls s) \<and> call_step fv i (calls s ! i) s s'"

text \<open>The slots as theory \<open>Auth_Flow\<close> has them.\<close>

definition world_of :: "sign_ins \<Rightarrow> (nat, nat) flow_world" where
  "world_of s = \<lparr>slot = resume s, rest = \<lparr>GRANT_AUTH_FLOW = flow_slot s, slots_rest = 0\<rparr>\<rparr>"

definition forget_in :: "pending_grant_flow \<Rightarrow> (nat, nat) flow_world \<Rightarrow> (nat, nat) flow_world" where
  "forget_in p w = w\<lparr>slot := slot_forget (generation p) (slot w)\<rparr>"

definition end_approval :: "pending_grant_flow option \<Rightarrow> (nat, nat) flow_world \<Rightarrow> (nat, nat) flow_world" where
  "end_approval p w = (case p of None \<Rightarrow> w | Some p \<Rightarrow> forget_in p w)"

definition put_or_not :: "nat option \<Rightarrow> (nat, nat) flow_world \<Rightarrow> (nat, nat) flow_world" where
  "put_or_not k w = (case k of None \<Rightarrow> w | Some f \<Rightarrow> put_flow (Some f) w)"

text \<open>Where a call that has reached \<open>p\<close> leaves the slots when nobody interferes.\<close>

fun leaves :: "nat flow_view \<Rightarrow> sign_in_pc \<Rightarrow> (nat, nat) flow_world \<Rightarrow> (nat, nat) flow_world \<Rightarrow> bool" where
  "leaves fv StartBegin w w' \<longleftrightarrow>
     w' = w \<or> (\<exists>f t. w' = put_flow (Some f) (w\<lparr>slot := slot_remember fv f t (slot w)\<rparr>))"
| "leaves fv (Remember f) w w' \<longleftrightarrow> (\<exists>t. w' = put_flow (Some f) (w\<lparr>slot := slot_remember fv f t (slot w)\<rparr>))"
| "leaves fv (RememberBumped f gen) w w' \<longleftrightarrow>
     (\<exists>t. w' = put_flow (Some f) (w\<lparr>slot := (slot w)\<lparr>PENDING := pending_for fv f gen t\<rparr>\<rparr>))"
| "leaves fv (PutFlow f) w w' \<longleftrightarrow> w' = put_flow (Some f) w"
| "leaves fv ReplaceBegin w w' \<longleftrightarrow> w' = w \<or> (\<exists>f. w' = replace_flow f w)"
| "leaves fv (Clear k) w w' \<longleftrightarrow> w' = put_or_not k (resume_clear w)"
| "leaves fv (ClearBumped k) w w' \<longleftrightarrow> w' = put_or_not k (w\<lparr>slot := (slot w)\<lparr>PENDING := None\<rparr>\<rparr>)"
| "leaves fv CancelBegin w w' \<longleftrightarrow> w' = cancel_grant_auth_flow w"
| "leaves fv PollBegin w w' \<longleftrightarrow>
     w' = w \<or> the_flow w \<noteq> None \<and> w' = resume_clear (put_flow None w)"
| "leaves fv (Polling f) w w' \<longleftrightarrow> w' = resume_clear w \<or> w' = put_flow (Some f) w"
| "leaves fv AwaitBegin w w' \<longleftrightarrow> w' = (if the_flow w = None then w else resume_clear (put_flow None w))"
| "leaves fv (Awaiting f) w w' \<longleftrightarrow> w' = resume_clear w"
| "leaves fv ApprovalBegin w w' \<longleftrightarrow>
     w' = (case the_flow w of None \<Rightarrow> w | Some f \<Rightarrow> end_approval (own_pending fv f (slot w)) (put_flow None w))"
| "leaves fv (Approving f) w w' \<longleftrightarrow> w' = end_approval (own_pending fv f (slot w)) w"
| "leaves fv (Listening f p) w w' \<longleftrightarrow> w' = end_approval p w"
| "leaves fv (Checked p) w w' \<longleftrightarrow> w' = forget_in p w \<or> \<not> is_current (generation p) (slot w) \<and> w' = w"
| "leaves fv (Slept p) w w' \<longleftrightarrow> w' = forget_in p w \<or> \<not> is_current (generation p) (slot w) \<and> w' = w"
| "leaves fv (Failed p) w w' \<longleftrightarrow> w' = forget_in p w"
| "leaves fv (Restoring p) w w' \<longleftrightarrow> w' = forget_in p w"
| "leaves fv (Forgetting p) w w' \<longleftrightarrow> w' = forget_in p w"
| "leaves fv (Returned p) w w' \<longleftrightarrow> w' = w"

lemmas world_defs = world_of_def put_flow_def the_flow_def resume_clear_def slot_clear_def slot_remember_def
  replace_flow_def cancel_grant_auth_flow_def forget_in_def end_approval_def put_or_not_def Let_def

lemma slot_both_updated [simp]:
  "sl\<lparr>GENERATION := gen, PENDING := p\<rparr> = \<lparr>GENERATION = gen, PENDING = p\<rparr>"
  by (cases sl) simp

lemma leaves_back:
  assumes "call_step fv i q s s'" and "i < length (calls s)"
    and "leaves fv (calls s' ! i) (world_of s') w"
  shows "leaves fv q (world_of s) w"
  using assms
  by (induction rule: call_step.induct)
    (auto simp: world_defs bump_def store_def split: option.splits)

lemma lone_run_leaves:
  "(lone_step fv i)\<^sup>*\<^sup>* s s' \<Longrightarrow> calls s' ! i = Returned r \<Longrightarrow>
   leaves fv (calls s ! i) (world_of s) (world_of s')"
proof (induction rule: converse_rtranclp_induct)
  case (step s s1)
  then show ?case
    using leaves_back unfolding lone_step_def by blast
qed simp


text \<open>An SDK that answers as told: what a start, a restore, a poll and an await give, and the time.\<close>

definition scripted ::
  "nat flow_view \<Rightarrow> instant \<Rightarrow> (sdk_error + nat) \<Rightarrow> (sdk_error + nat option) \<Rightarrow> (nat, nat, u8, nat) flow_env" where
  "scripted fv t new poll = example_flows\<lparr>flow_view_of := fv, flow_now := (\<lambda>_. t), flow_start := (\<lambda>_ w. (new, w)),
     flow_restore_state := (\<lambda>_ w. (new, w)), flow_poll_once := (\<lambda>_ w. (poll, w))\<rparr>"

lemma scripted_simps [simp]:
  "flow_view_of (scripted fv t new poll) = fv" "flow_now (scripted fv t new poll) = (\<lambda>_. t)"
  "flow_start (scripted fv t new poll) = (\<lambda>_ w. (new, w))"
  "flow_restore_state (scripted fv t new poll) = (\<lambda>_ w. (new, w))"
  "flow_poll_once (scripted fv t new poll) = (\<lambda>_ w. (poll, w))"
  "flow_await (scripted fv t new poll) = (\<lambda>_ w. (Inr 1, w))"
  "grant_session_text (flow_sessions (scripted fv t new poll)) ses w = (Inr ''json'', w)"
  "caps_try_from (scripted fv t new poll) = Inr" "new_client_id (scripted fv t new poll) = Inr"
  using example_session_text [of ses w] by (simp_all add: scripted_def example_flows_def)

lemma scripted_start:
  "snd (start_grant_auth_flow (scripted fv t (Inl e) poll) [] [] w) = w"
  "snd (start_grant_auth_flow (scripted fv t (Inr f) poll) [] [] w) =
     put_flow (Some f) (w\<lparr>slot := slot_remember fv f t (slot w)\<rparr>)"
  by (simp_all add: start_grant_auth_flow_def parse_client_id_def)

definition example_record :: grant_auth_flow_state_record where
  "example_record = \<lparr>rec_authorization_url = ''pubkyauth:x'', rec_client_key_secret = replicate 32 1,
     rec_approval_key_secret = None\<rparr>"

lemma scripted_restore:
  "snd (restore_grant_auth_flow (scripted fv t (Inl e) poll) example_record w) = w"
  "snd (restore_grant_auth_flow (scripted fv t (Inr f) poll) example_record w) = replace_flow f w"
  by (simp_all add: restore_grant_auth_flow_def bytes_32_def opt_bytes_32_def example_record_def)

lemma scripted_poll:
  "snd (poll_grant_auth_flow (scripted fv t new (Inr None)) w) = w"
  "the_flow w \<noteq> None \<Longrightarrow>
   snd (poll_grant_auth_flow (scripted fv t new (Inr (Some 1))) w) = resume_clear (put_flow None w)"
  by (auto simp: poll_grant_auth_flow_def put_flow_def the_flow_def session_json_def split: option.split)

lemma scripted_await:
  "snd (await_grant_auth_flow (scripted fv t new poll) w) =
     (if the_flow w = None then w else resume_clear (put_flow None w))"
  by (auto simp: await_grant_auth_flow_def session_json_def split: option.split)

lemma scripted_approval:
  "\<exists>r. await_grant_auth_approval (scripted fv t new poll) w =
     Some (r, case the_flow w of None \<Rightarrow> w | Some f \<Rightarrow> end_approval (own_pending fv f (slot w)) (put_flow None w))"
  by (auto simp: await_grant_auth_approval_def await_resuming_def await_with_def await_loop.simps resume_env_of_def
      own_pending_def end_approval_def forget_in_def split: option.split)

text \<open>For the examples: flows that can be saved, and a call driven alone.\<close>

definition example_view :: "nat flow_view" where
  "example_view = flow_view_of example_flows"

definition example_saved :: "u64 \<Rightarrow> pending_grant_flow" where
  "example_saved gen =
     \<lparr>generation = gen, flow_state = \<lparr>state_url = ''pubkyauth:x'', client_key_secret = replicate 32 1,
        approval_key_secret = None\<rparr>, relay = ''https://r'', started = 0\<rparr>"

lemma example_saved: "pending_for example_view f gen 0 = Some (example_saved gen)"
  by (simp add: pending_for_def example_view_def example_flows_def example_saved_def)

lemma example_own_pending:
  "own_pending example_view f \<lparr>GENERATION = n, PENDING = Some (example_saved gen)\<rparr> = Some (example_saved gen)"
  "generation (example_saved gen) = gen"
  by (simp_all add: own_pending_def slot_current_def example_saved_def example_view_def example_flows_def)

fun lone_drive :: "nat flow_view \<Rightarrow> instant \<Rightarrow> nat \<Rightarrow> nat list \<Rightarrow> sign_ins \<Rightarrow> sign_ins option" where
  "lone_drive fv t i [] s = Some s"
| "lone_drive fv t i (n # ns) s =
     (if i < length (calls s) \<and> n < length (moves fv t i (calls s ! i) s)
      then lone_drive fv t i ns (moves fv t i (calls s ! i) s ! n) else None)"

lemma lone_drive_run: "lone_drive fv t i ns s = Some s' \<Longrightarrow> (lone_step fv i)\<^sup>*\<^sup>* s s'"
proof (induction fv t i ns s rule: lone_drive.induct)
  case (2 fv t i n ns s)
  then have "lone_step fv i s (moves fv t i (calls s ! i) s ! n)"
    using moves_are_steps [OF nth_mem] by (auto simp: lone_step_def split: if_splits)
  with 2 show ?case
    by (auto intro: converse_rtranclp_into_rtranclp split: if_splits)
qed simp

text \<open>
  And the other way round: whatever the SDK answers, as long as it and the other threads leave the slots alone
  meanwhile, what an export does to the slots is what some lone run of its call does. New flows are numbered
  in order.
\<close>

definition slots :: "('f, 'u) flow_world \<Rightarrow> resume_slot \<times> 'f option" where
  "slots w = (slot w, the_flow w)"

definition quiet :: "(nat, 's, 'k, 'u) flow_env \<Rightarrow> nat \<Rightarrow> bool" where
  "quiet G n \<longleftrightarrow>
     (\<forall>cs w r w'. flow_start G cs w = (r, w') \<longrightarrow> slots w' = slots w \<and> (\<forall>f. r = Inr f \<longrightarrow> f = n)) \<and>
     (\<forall>st w r w'. flow_restore_state G st w = (r, w') \<longrightarrow> slots w' = slots w \<and> (\<forall>f. r = Inr f \<longrightarrow> f = n)) \<and>
     (\<forall>f w r w'. flow_poll_once G f w = (r, w') \<longrightarrow> slots w' = slots w) \<and>
     (\<forall>f w r w'. flow_await G f w = (r, w') \<longrightarrow> slots w' = slots w) \<and>
     (\<forall>d w. slots (flow_sleep G d w) = slots w) \<and>
     (\<forall>ses w r w'. grant_session_text (flow_sessions G) ses w = (r, w') \<longrightarrow> slots w' = slots w)"

definition lone_result :: "nat flow_view \<Rightarrow> nat \<Rightarrow> sign_ins \<Rightarrow> resume_slot \<times> nat option \<Rightarrow> bool" where
  "lone_result fv i s sl \<longleftrightarrow>
     (\<exists>s' r. (lone_step fv i)\<^sup>*\<^sup>* s s' \<and> calls s' ! i = Returned r \<and> sl = (resume s', flow_slot s'))"

lemma lone_resultI:
  "lone_drive fv t i ns s = Some s' \<Longrightarrow> calls s' ! i = Returned r \<Longrightarrow> sl = (resume s', flow_slot s') \<Longrightarrow>
   lone_result fv i s sl"
  unfolding lone_result_def using lone_drive_run by blast

lemma lone_results:
  assumes "i < length (calls s)"
  shows "calls s ! i = StartBegin \<or> calls s ! i = ReplaceBegin \<Longrightarrow> lone_result fv i s (resume s, flow_slot s)"
    and "calls s ! i = StartBegin \<Longrightarrow> lone_result fv i s (slot_remember fv (built s) t (resume s), Some (built s))"
    and "calls s ! i = ReplaceBegin \<Longrightarrow> lone_result fv i s (slot_clear (resume s), Some (built s))"
    and "calls s ! i = CancelBegin \<Longrightarrow> lone_result fv i s (slot_clear (resume s), None)"
    and "calls s ! i = PollBegin \<Longrightarrow> lone_result fv i s (resume s, flow_slot s)"
    and "calls s ! i \<in> {PollBegin, AwaitBegin} \<Longrightarrow> flow_slot s = Some f \<Longrightarrow>
           lone_result fv i s (slot_clear (resume s), None)"
    and "calls s ! i \<in> {AwaitBegin, ApprovalBegin} \<Longrightarrow> flow_slot s = None \<Longrightarrow>
           lone_result fv i s (resume s, flow_slot s)"
    and "calls s ! i = ApprovalBegin \<Longrightarrow> flow_slot s = Some f \<Longrightarrow> own_pending fv f (resume s) = None \<Longrightarrow>
           lone_result fv i s (resume s, None)"
    and "calls s ! i = ApprovalBegin \<Longrightarrow> flow_slot s = Some f \<Longrightarrow> own_pending fv f (resume s) = Some p \<Longrightarrow>
           lone_result fv i s (slot_forget (generation p) (resume s), None)"
proof -
  note run = goto_def bump_def store_def slot_remember_def slot_clear_def Let_def
  show "lone_result fv i s (resume s, flow_slot s)" if "calls s ! i = StartBegin \<or> calls s ! i = ReplaceBegin"
    using that assms by (auto intro!: lone_resultI [where ns = "[0]"] simp: run)
  show "lone_result fv i s (slot_remember fv (built s) t (resume s), Some (built s))" if "calls s ! i = StartBegin"
    using that assms by (auto intro!: lone_resultI [where ns = "[1, 0, 0, 0]" and t = t] simp: run)
  show "lone_result fv i s (slot_clear (resume s), Some (built s))" if "calls s ! i = ReplaceBegin"
    using that assms by (auto intro!: lone_resultI [where ns = "[1, 0, 0, 0]"] simp: run)
  show "lone_result fv i s (slot_clear (resume s), None)" if "calls s ! i = CancelBegin"
    using that assms by (auto intro!: lone_resultI [where ns = "[0, 0, 0]"] simp: run)
  show "lone_result fv i s (resume s, flow_slot s)" if "calls s ! i = PollBegin"
    using that assms
    by (auto intro!: lone_resultI [where ns = "if flow_slot s = None then [0] else [0, 1, 0]"] 
        simp: run split: option.split)
  show "lone_result fv i s (slot_clear (resume s), None)"
    if "calls s ! i \<in> {PollBegin, AwaitBegin}" "flow_slot s = Some f"
    using that assms by (auto intro!: lone_resultI [where ns = "[0, 0, 0, 0]"] simp: run)
  show "lone_result fv i s (resume s, flow_slot s)"
    if "calls s ! i \<in> {AwaitBegin, ApprovalBegin}" "flow_slot s = None"
    using that assms by (auto intro!: lone_resultI [where ns = "[0]"] simp: run)
  show "lone_result fv i s (resume s, None)"
    if "calls s ! i = ApprovalBegin" "flow_slot s = Some f" "own_pending fv f (resume s) = None"
    using that assms by (auto intro!: lone_resultI [where ns = "[0, 0, 0]"] simp: run)
  show "lone_result fv i s (slot_forget (generation p) (resume s), None)"
    if "calls s ! i = ApprovalBegin" "flow_slot s = Some f" "own_pending fv f (resume s) = Some p"
    using that assms by (auto intro!: lone_resultI [where ns = "[0, 0, 0, 0]"] simp: run)
qed

lemma slots_of [simp]:
  "slots (put_flow k w) = (slot w, k)" "slots (resume_clear w) = (slot_clear (slot w), the_flow w)"
  "slots (w\<lparr>slot := sl\<rparr>) = (sl, the_flow w)" "slots (replace_flow f w) = (slot_clear (slot w), Some f)"
  "slots (cancel_grant_auth_flow w) = (slot_clear (slot w), None)"
  by (simp_all add: slots_def put_flow_def resume_clear_def the_flow_def replace_flow_def cancel_grant_auth_flow_def)

lemma slots_eq: "slots w = (sl, f) \<longleftrightarrow> slot w = sl \<and> the_flow w = f"
  by (simp add: slots_def)

lemma quiet_loop_raw:
  "await_loop E pending wanted done flow since q out w = Some rw \<Longrightarrow>
   pending = Some p \<and> wanted = (\<lambda>gen w. is_current gen (slot w)) \<and>
   done = (\<lambda>gen w. w\<lparr>slot := slot_forget gen (slot w)\<rparr>) \<and> env_keeps (\<lambda>w. slots w = (sl, k)) E \<and> slots w = (sl, k) \<Longrightarrow>
   slots (snd rw) = (slot_forget (generation p) sl, k)"
proof (induction rule: await_loop.raw_induct [rotated, consumes 1])
  case (1 rec E pending wanted "done" flow since q out w rw)
  then have p: "pending = Some p" "wanted = (\<lambda>gen w. is_current gen (slot w))"
      "done = (\<lambda>gen w. w\<lparr>slot := slot_forget gen (slot w)\<rparr>)"
    and keeps: "env_keeps (\<lambda>w. slots w = (sl, k)) E" and w: "slots w = (sl, k)" by auto
  obtain a w1 where a: "sdk_await_approval E flow w = (a, w1)" by fastforce
  then have w1: "slot w1 = sl" "the_flow w1 = k"
    using keeps w unfolding env_keeps_def slots_eq by (metis snd_conv)+
  have sl: "slot (sleep E d w1) = sl" "the_flow (sleep E d w1) = k" for d
    using keeps w1 by (simp_all add: env_keeps_def slots_eq)
  have rs: "slot w3 = sl \<and> the_flow w3 = k" if "sdk_restore E (flow_state p) (sleep E d w1) = (b, w3)" for d b w3
    using keeps sl [of d] that unfolding env_keeps_def slots_eq by (metis snd_conv)
  have ih: "slots (snd rw) = (slot_forget (generation p) sl, k)"
    if "sdk_restore E (flow_state p) (sleep E d w1) = (b, w3)"
      "rec E (Some p) (\<lambda>gen w. is_current gen (slot w)) (\<lambda>gen w. w\<lparr>slot := slot_forget gen (slot w)\<rparr>)
        f' since' q' out' w3 = Some rw"
    for d b w3 f' since' q' out'
    by (rule 1(1) [OF that(2)]) (use rs [OF that(1)] keeps in \<open>simp add: slots_eq\<close>)
  show ?case
    using 1(2) a p
    by (auto simp: sl w1 Let_def dest: rs ih split: sum.splits if_splits option.splits prod.splits)
qed

lemma quiet_await_resuming:
  assumes "quiet G n" and "await_resuming (flow_view_of G) (resume_env_of G) f w = Some (r, w')"
  shows "slots w' = (case own_pending (flow_view_of G) f (slot w) of
    None \<Rightarrow> slots w | Some p \<Rightarrow> (slot_forget (generation p) (slot w), the_flow w))"
proof -
  have "slots (snd (flow_await G f w)) = slots w" "slots (snd (flow_restore_state G st w)) = slots w"
    "slots (flow_sleep G d w) = slots w" for f st d w
    using assms(1) unfolding quiet_def by (metis prod.collapse)+
  then have keeps: "env_keeps (\<lambda>w. slots w = (sl, k)) (resume_env_of G)" for sl k
    by (simp add: env_keeps_def resume_env_of_def)
  show ?thesis
  proof (cases "own_pending (flow_view_of G) f (slot w)")
    case None
    then have "await_loop (resume_env_of G) None (\<lambda>gen w. is_current gen (slot w))
        (\<lambda>gen w. w\<lparr>slot := slot_forget gen (slot w)\<rparr>) f (now (resume_env_of G) w) 0 None w = Some (r, w')"
      using assms(2) by (simp add: await_resuming_def await_with_def own_pending_def)
    then have "snd (sdk_await_approval (resume_env_of G) f w) = w'"
      by (subst (asm) await_loop.simps) (auto split: prod.splits sum.splits)
    then show ?thesis
      using keeps [of "slot w" "the_flow w"] None unfolding env_keeps_def by (auto simp: slots_def)
  next
    case (Some p)
    then have "await_loop (resume_env_of G) (Some p) (\<lambda>gen w. is_current gen (slot w))
        (\<lambda>gen w. w\<lparr>slot := slot_forget gen (slot w)\<rparr>) f (started p) 0 None w = Some (r, w')"
      using assms(2) by (auto simp: await_resuming_def await_with_def own_pending_def split: option.splits if_splits)
    from quiet_loop_raw [OF this] keeps Some show ?thesis
      by (simp add: slots_def)
  qed
qed

lemma quiet_calls:
  assumes "quiet G n"
  shows "flow_start G cs w = (r, w') \<Longrightarrow>
      slots w' = (slot w, the_flow w) \<and> slot w' = slot w \<and> the_flow w' = the_flow w \<and> (\<forall>f. r = Inr f \<longrightarrow> f = n)"
    and "flow_restore_state G st w = (r, w') \<Longrightarrow>
      slots w' = (slot w, the_flow w) \<and> slot w' = slot w \<and> the_flow w' = the_flow w \<and> (\<forall>f. r = Inr f \<longrightarrow> f = n)"
    and "flow_poll_once G f w = (polled, w') \<Longrightarrow>
      slots w' = slots w \<and> slot w' = fst (slots w) \<and> the_flow w' = snd (slots w)"
    and "flow_await G f w = (awaited, w') \<Longrightarrow>
      slots w' = slots w \<and> slot w' = fst (slots w) \<and> the_flow w' = snd (slots w)"
    and "grant_session_text (flow_sessions G) ses w = (answer, w') \<Longrightarrow> slots w' = slots w"
  using assms by (auto simp: quiet_def slots_def)

lemma sequential_update_runs_alone:
  assumes q: "quiet G (built s)" and i: "i < length (calls s)" and w: "slots w = (resume s, flow_slot s)"
  shows "calls s ! i = StartBegin \<Longrightarrow>
      lone_result (flow_view_of G) i s (slots (snd (start_grant_auth_flow G caps cid w)))"
    and "calls s ! i = ReplaceBegin \<Longrightarrow>
      lone_result (flow_view_of G) i s (slots (snd (restore_grant_auth_flow G st w)))"
    and "calls s ! i = ReplaceBegin \<Longrightarrow>
      lone_result (flow_view_of G) i s (slots (snd (start_grant_auth_flow_with_config G cfg w)))"
    and "calls s ! i = CancelBegin \<Longrightarrow> lone_result (flow_view_of G) i s (slots (cancel_grant_auth_flow w))"
proof -
  note runs = lone_results [OF i, where fv = "flow_view_of G"]
  note start = quiet_calls(1) [OF q] and restore = quiet_calls(2) [OF q]
  have w': "slot w = resume s" "the_flow w = flow_slot s" using w by (simp_all add: slots_eq)
  show "lone_result (flow_view_of G) i s (slots (snd (start_grant_auth_flow G caps cid w)))"
    if "calls s ! i = StartBegin"
    using that runs(1,2) w'
    by (auto simp: start_grant_auth_flow_def w dest!: start split: sum.splits prod.splits)
  show "lone_result (flow_view_of G) i s (slots (snd (restore_grant_auth_flow G st w)))"
    if "calls s ! i = ReplaceBegin"
    using that runs(1,3) w'
    by (auto simp: restore_grant_auth_flow_def w dest!: restore split: sum.splits prod.splits)
  show "lone_result (flow_view_of G) i s (slots (snd (start_grant_auth_flow_with_config G cfg w)))"
    if "calls s ! i = ReplaceBegin"
    using that runs(1,3) w'
    by (auto simp: start_grant_auth_flow_with_config_def w dest!: start split: sum.splits prod.splits)
  show "lone_result (flow_view_of G) i s (slots (cancel_grant_auth_flow w))" if "calls s ! i = CancelBegin"
    using that runs(4) w' by simp
qed

lemma sequential_wait_runs_alone:
  assumes q: "quiet G (built s)" and i: "i < length (calls s)" and w: "slots w = (resume s, flow_slot s)"
  shows "calls s ! i = PollBegin \<Longrightarrow> lone_result (flow_view_of G) i s (slots (snd (poll_grant_auth_flow G w)))"
    and "calls s ! i = AwaitBegin \<Longrightarrow> lone_result (flow_view_of G) i s (slots (snd (await_grant_auth_flow G w)))"
    and "calls s ! i = ApprovalBegin \<Longrightarrow> await_grant_auth_approval G w = Some (r, w') \<Longrightarrow>
      lone_result (flow_view_of G) i s (slots w')"
proof -
  note runs = lone_results [OF i, where fv = "flow_view_of G"]
  note poll = quiet_calls(3) [OF q] and await = quiet_calls(4) [OF q] and said = quiet_calls(5) [OF q]
  have w': "slot w = resume s" "the_flow w = flow_slot s" using w by (simp_all add: slots_eq)
  show "lone_result (flow_view_of G) i s (slots (snd (poll_grant_auth_flow G w)))" if "calls s ! i = PollBegin"
    using that runs(5,6) w w'
    by (auto simp: poll_grant_auth_flow_def session_json_def dest!: poll said
        split: sum.splits prod.splits option.splits)
  show "lone_result (flow_view_of G) i s (slots (snd (await_grant_auth_flow G w)))" if "calls s ! i = AwaitBegin"
    using that runs(6,7) w w'
    by (auto simp: await_grant_auth_flow_def session_json_def dest!: await said
        split: sum.splits prod.splits option.splits)
  show "lone_result (flow_view_of G) i s (slots w')"
    if "calls s ! i = ApprovalBegin" "await_grant_auth_approval G w = Some (r, w')"
    using that runs(7-9) w w'
    by (auto simp: await_grant_auth_approval_def dest!: said quiet_await_resuming [OF q]
        split: sum.splits prod.splits option.splits)
qed

text \<open>The scripted SDK is one.\<close>

lemma scripted_quiet: "quiet (scripted fv t (Inr n) poll) n"
proof -
  have "slots (flow_sleep (scripted fv t (Inr n) poll) d w) = slots w" for d w
    by (simp add: scripted_def example_flows_def slots_def the_flow_def)
  then show ?thesis by (auto simp: quiet_def)
qed

subsection \<open>Properties\<close>

text \<open>
  C14 (refinement). A sign-in call that runs without interference does to the slots what the sequential
  definition of its export does, for some answers of the SDK: the two-step updates of the resume slot, the
  flow taken out and put back, and the resume loop add up to the operations of theory \<open>Auth_Flow\<close>.
\<close>

theorem lone_sign_in_call_is_sequential:
  assumes "(lone_step fv i)\<^sup>*\<^sup>* s s'" and "calls s' ! i = Returned r"
  shows "(calls s ! i = StartBegin \<longrightarrow> (\<exists>G caps cid. flow_view_of G = fv \<and>
        world_of s' = snd (start_grant_auth_flow (G :: (nat, nat, u8, nat) flow_env) caps cid (world_of s)))) \<and>
    (calls s ! i = ReplaceBegin \<longrightarrow> (\<exists>G rec. flow_view_of G = fv \<and>
        world_of s' = snd (restore_grant_auth_flow (G :: (nat, nat, u8, nat) flow_env) rec (world_of s)))) \<and>
    (calls s ! i = CancelBegin \<longrightarrow> world_of s' = cancel_grant_auth_flow (world_of s)) \<and>
    (calls s ! i = PollBegin \<longrightarrow> (\<exists>G. flow_view_of G = fv \<and>
        world_of s' = snd (poll_grant_auth_flow (G :: (nat, nat, u8, nat) flow_env) (world_of s)))) \<and>
    (calls s ! i = AwaitBegin \<longrightarrow> (\<exists>G. flow_view_of G = fv \<and>
        world_of s' = snd (await_grant_auth_flow (G :: (nat, nat, u8, nat) flow_env) (world_of s)))) \<and>
    (calls s ! i = ApprovalBegin \<longrightarrow> (\<exists>G answer. flow_view_of G = fv \<and>
        await_grant_auth_approval (G :: (nat, nat, u8, nat) flow_env) (world_of s) = Some (answer, world_of s')))"
    (is "?start \<and> ?replace \<and> ?cancel \<and> ?poll \<and> ?await \<and> ?approval")
proof -
  note run = lone_run_leaves [OF assms]
  have ?start
  proof
    assume "calls s ! i = StartBegin"
    with run consider "world_of s' = world_of s"
      | f t where "world_of s' = put_flow (Some f) ((world_of s)\<lparr>slot := slot_remember fv f t (slot (world_of s))\<rparr>)"
      by auto
    then show "\<exists>G caps cid. flow_view_of G = fv \<and>
        world_of s' = snd (start_grant_auth_flow (G :: (nat, nat, u8, nat) flow_env) caps cid (world_of s))"
      by cases (metis scripted_start scripted_simps(1))+
  qed
  moreover have ?replace
  proof
    assume "calls s ! i = ReplaceBegin"
    with run consider "world_of s' = world_of s" | f where "world_of s' = replace_flow f (world_of s)"
      by auto
    then show "\<exists>G rec. flow_view_of G = fv \<and>
        world_of s' = snd (restore_grant_auth_flow (G :: (nat, nat, u8, nat) flow_env) rec (world_of s))"
      by cases (metis scripted_restore scripted_simps(1))+
  qed
  moreover have ?cancel using run by auto
  moreover have ?poll
    using run scripted_poll scripted_simps(1) [of fv] by (metis leaves.simps(9))
  moreover have ?await
    using run scripted_await scripted_simps(1) [of fv] by (metis leaves.simps(11))
  moreover have ?approval
    using run scripted_approval [of fv] scripted_simps(1) [of fv] by (metis leaves.simps(13))
  ultimately show ?thesis by blast
qed

theorem lone_sign_in_call_is_sequential_witness:
  "let s = \<lparr>resume = \<lparr>GENERATION = 1, PENDING = Some example_pending\<rparr>, flow_slot = Some 0, built = 1, bumps = 1,
         calls = [CancelBegin]\<rparr>;
       s' = \<lparr>resume = \<lparr>GENERATION = 2, PENDING = None\<rparr>, flow_slot = None, built = 1, bumps = 2,
         calls = [Returned None]\<rparr>
   in (lone_step example_view 0)\<^sup>*\<^sup>* s s' \<and> world_of s' = cancel_grant_auth_flow (world_of s)"
proof -
  let ?s = "\<lparr>resume = \<lparr>GENERATION = 1, PENDING = Some example_pending\<rparr>, flow_slot = Some 0, built = 1, bumps = 1,
         calls = [CancelBegin]\<rparr>"
  let ?s' = "\<lparr>resume = \<lparr>GENERATION = 2, PENDING = None\<rparr>, flow_slot = None, built = 1, bumps = 2,
         calls = [Returned None]\<rparr>"
  have "lone_drive example_view 0 0 [0, 0, 0] ?s = Some ?s'" by (simp add: run_defs)
  from lone_drive_run [OF this] have run: "(lone_step example_view 0)\<^sup>*\<^sup>* ?s ?s'" .
  show ?thesis
    using lone_sign_in_call_is_sequential [OF run, of None] run by (simp add: Let_def)
qed

text \<open>
  C13 (invariant). A flow object is never used twice: at every moment of every interleaving it is owned by the
  slot or by a single call, so no two calls poll through one flow, and what is in the slot is polled by
  nobody.
\<close>

theorem one_owner_per_flow:
  assumes "sign_ins_reachable fv s" and "i < length (calls s)" and "owns (calls s ! i) = Some f"
  shows "flow_slot s \<noteq> Some f \<and> (\<forall>j. j < length (calls s) \<and> owns (calls s ! j) = Some f \<longrightarrow> j = i)"
  using owner_inv_reachable [OF assms(1)] assms(2,3) unfolding owner_inv_def by blast

theorem one_owner_per_flow_witness:
  "\<exists>s. sign_ins_reachable example_view s \<and> calls s = [Returned None, Polling 0, Remember 1] \<and> flow_slot s \<noteq> Some 0"
proof -
  have "drive example_view 0 [Arrive StartBegin, Move 0 1, Move 0 0, Move 0 0, Move 0 0, Arrive PollBegin, Move 1 0,
      Arrive StartBegin, Move 2 1] no_sign_ins =
    Some \<lparr>resume = \<lparr>GENERATION = 1, PENDING = pending_for example_view 0 1 0\<rparr>, flow_slot = None, built = 2, bumps = 1,
      calls = [Returned None, Polling 0, Remember 1]\<rparr>"
    by (simp add: run_defs)
  from drive_from_none [OF this] show ?thesis
    using one_owner_per_flow [of example_view _ 1 0] by force
qed

text \<open>
  C12 (safety). The keys of a resumed sign-in do not outlive it even when calls overlap: once \<^verbatim>\<open>await_grant_auth_approval\<close>
  has returned and no other call stands between the two steps of \<^verbatim>\<open>remember\<close> or \<^verbatim>\<open>clear\<close>, the resume slot does
  not hold the state that call worked with, whichever calls started, replaced or cancelled a sign-in meanwhile.
\<close>

theorem resumed_keys_gone_once_settled:
  assumes "sign_ins_reachable fv s" and "bumps s < 2 ^ 64" and "settled s"
    and "Returned (Some p) \<in> set (calls s)"
  shows "\<not> slot_holds (generation p) (resume s)"
  using sign_in_inv_reachable [OF assms(1,2)] assms(3,4)
  unfolding sign_in_inv_def passed_inv_def by force

theorem resumed_keys_gone_once_settled_witness:
  "\<exists>s. sign_ins_reachable example_view s \<and>
     calls s = [Returned None, Returned (Some (example_saved 1)), Returned None] \<and>
     slot_current (resume s) = Some (example_saved 2) \<and> \<not> slot_holds 1 (resume s)"
proof -
  let ?s = "\<lparr>resume = \<lparr>GENERATION = 2, PENDING = Some (example_saved 2)\<rparr>, flow_slot = Some 1, built = 2, bumps = 2,
      calls = [Returned None, Returned (Some (example_saved 1)), Returned None]\<rparr>"
  have "drive example_view 0 [Arrive StartBegin, Move 0 1, Move 0 0, Move 0 0, Move 0 0, Arrive ApprovalBegin,
      Move 1 0, Move 1 0, Move 1 1, Move 1 0, Move 1 1, Arrive StartBegin, Move 2 1, Move 2 0, Move 2 0, Move 2 0,
      Move 1 0] no_sign_ins = Some ?s"
    by (simp add: run_defs example_saved example_own_pending is_current_def)
  from drive_from_none [OF this] show ?thesis
    using resumed_keys_gone_once_settled [of example_view ?s "example_saved 1"]
    by (intro exI [of _ ?s]) (simp add: slot_current_def settled_def example_saved_def)
qed

text \<open>
  C38 (safety). A cancellation that falls between the two steps of \<^verbatim>\<open>remember\<close> leaves a sign-in that cannot be
  resumed: the flow is in the slot and its keys are saved, both calls have returned, but the saved
  generation is not the current one, which no order of the two calls gives.
\<close>

theorem cancel_amid_start_disables_resume:
  assumes "pending_for fv 0 1 t = Some p"
  shows "\<exists>s. sign_ins_reachable fv s \<and> calls s = [Returned None, Returned None] \<and> flow_slot s = Some 0 \<and>
    slot_current (resume s) = Some p \<and> \<not> is_current (generation p) (resume s)"
proof -
  have "drive fv t [Arrive StartBegin, Arrive CancelBegin, Move 0 1, Move 0 0, Move 1 0, Move 1 0, Move 1 0,
      Move 0 0, Move 0 0] no_sign_ins =
    Some \<lparr>resume = \<lparr>GENERATION = 2, PENDING = Some p\<rparr>, flow_slot = Some 0, built = 1, bumps = 2,
      calls = [Returned None, Returned None]\<rparr>"
    using assms by (simp add: run_defs)
  from drive_from_none [OF this] show ?thesis
    using pending_for_generation [OF assms] by (auto simp: slot_current_def is_current_def)
qed

theorem cancel_amid_start_disables_resume_witness:
  "\<exists>s. sign_ins_reachable example_view s \<and> flow_slot s = Some 0 \<and>
     slot_current (resume s) = Some (example_saved 1) \<and> \<not> is_current 1 (resume s)"
  using cancel_amid_start_disables_resume [OF example_saved] by (auto simp: example_saved_def)

text \<open>
  C37 (safety). A poll undoes what overtakes it. When a sign-in is started while the poll of an earlier one
  is out: if the poll finds nothing, it puts the old flow back over the new one, which nobody can await any
  more although its URL was handed out; if the poll collects the approval, it wipes the resume state of the
  new flow. When the sign-in is cancelled meanwhile and the poll finds nothing, the flow is back afterwards.
\<close>

theorem poll_undoes_what_overtakes_it:
  "(\<exists>s. sign_ins_reachable fv s \<and> calls s = [Returned None, Returned None, Returned None] \<and> built s = 2 \<and>
     flow_slot s = Some 0 \<and> slot_current (resume s) = pending_for fv 1 2 t) \<and>
   (\<exists>s. sign_ins_reachable fv s \<and> calls s = [Returned None, Returned None, Returned None] \<and> built s = 2 \<and>
     flow_slot s = Some 1 \<and> slot_current (resume s) = None) \<and>
   (\<exists>s s'. sign_ins_reachable fv s \<and> calls s = [Returned None, Polling 0, CancelBegin] \<and>
     (sign_in_step fv)\<^sup>*\<^sup>* s s' \<and> calls s' = [Returned None, Returned None, Returned None] \<and> flow_slot s' = Some 0)"
    (is "?put_back \<and> ?wiped \<and> ?revived")
proof (intro conjI)
  let ?polling = "[Arrive StartBegin, Move 0 1, Move 0 0, Move 0 0, Move 0 0, Arrive PollBegin, Move 1 0]"
  let ?overtaken = "?polling @ [Arrive StartBegin, Move 2 1, Move 2 0, Move 2 0, Move 2 0]"
  have "drive fv t (?overtaken @ [Move 1 1, Move 1 0]) no_sign_ins =
    Some \<lparr>resume = \<lparr>GENERATION = 2, PENDING = pending_for fv 1 2 t\<rparr>, flow_slot = Some 0, built = 2, bumps = 2,
      calls = [Returned None, Returned None, Returned None]\<rparr>"
    by (simp add: run_defs)
  from drive_from_none [OF this] show ?put_back by (auto simp: slot_current_def)
  have "drive fv t (?overtaken @ [Move 1 0, Move 1 0, Move 1 0]) no_sign_ins =
    Some \<lparr>resume = \<lparr>GENERATION = 3, PENDING = None\<rparr>, flow_slot = Some 1, built = 2, bumps = 3,
      calls = [Returned None, Returned None, Returned None]\<rparr>"
    by (simp add: run_defs)
  from drive_from_none [OF this] show ?wiped by (auto simp: slot_current_def)
  let ?s = "\<lparr>resume = \<lparr>GENERATION = 1, PENDING = pending_for fv 0 1 t\<rparr>, flow_slot = None, built = 1, bumps = 1,
      calls = [Returned None, Polling 0, CancelBegin]\<rparr>"
  have "drive fv t (?polling @ [Arrive CancelBegin]) no_sign_ins = Some ?s"
    by (simp add: run_defs)
  moreover have "drive fv t [Move 2 0, Move 2 0, Move 2 0, Move 1 1, Move 1 0] ?s =
    Some \<lparr>resume = \<lparr>GENERATION = 2, PENDING = None\<rparr>, flow_slot = Some 0, built = 1, bumps = 2,
      calls = [Returned None, Returned None, Returned None]\<rparr>"
    by (simp add: run_defs)
  ultimately show ?revived
    using drive_from_none drive_run by fastforce
qed

end
