(* ===== verification/Flow_Handles.thy ===== *)
theory Flow_Handles
  imports Grant_Resume
begin

section \<open>Grant sign-in flows addressed by id\<close>

text \<open>
  Models \<^verbatim>\<open>src/auth_flow_handles.rs\<close>: the registry of pending flows, its limits, the sweep, and the
  calls \<^verbatim>\<open>start\<close>, \<^verbatim>\<open>poll\<close>, \<^verbatim>\<open>await_approval\<close> and \<^verbatim>\<open>cancel\<close>.

  The registry is part of the world the calls run in. Each critical section of the source is a
  function on the registry; the SDK's flow operations, the pause and the random id are parameters
  that act on the whole world, because other threads use the registry while a call waits.
\<close>

subsection \<open>The registry\<close>

definition DEFAULT_MAX_FLOWS :: nat where
  "DEFAULT_MAX_FLOWS = 64"

definition DEFAULT_TTL :: duration where
  "DEFAULT_TTL = from_secs 300"

definition AWAIT_POLL_INTERVAL :: duration where
  "AWAIT_POLL_INTERVAL = from_millis 200"

record limits =
  max_flows :: nat
  ttl :: duration

record ('f, 'n) flow_entry =
  entry_flow :: "'f option"
  entry_pending :: "pending_grant_flow option"
  entry_started :: instant
  entry_cancelled :: 'n

type_synonym ('f, 'n) registry = "('f, 'n) flow_entry hmap"

datatype 's outcome = Pending | Approved 's | Expired

definition collectable_for :: "duration \<Rightarrow> duration" where
  "collectable_for d = saturating_mul d 2"

definition evict_expired :: "instant \<Rightarrow> duration \<Rightarrow> ('f, 'n) registry \<Rightarrow> ('f, 'n) registry" where
  "evict_expired t d m =
     filter (\<lambda>(_, e). entry_flow e = None \<or> t - entry_started e \<le> collectable_for d) m"

definition live_count :: "instant \<Rightarrow> duration \<Rightarrow> ('f, 'n) registry \<Rightarrow> nat" where
  "live_count t d m = length (filter (\<lambda>(_, e). t - entry_started e \<le> d) m)"

definition too_many :: "nat \<Rightarrow> string" where
  "too_many n = ''Too many pending auth flows: '' @ show_nat n @ '' already waiting for approval''"

text \<open>The two critical sections of \<^verbatim>\<open>start\<close>: sweep and check; check again and insert.\<close>

definition admit :: "nat \<Rightarrow> duration \<Rightarrow> instant \<Rightarrow> ('f, 'n) registry \<Rightarrow> unit result \<times> ('f, 'n) registry" where
  "admit cap d t m =
     (let m = evict_expired t d m in
      (if live_count t d m \<ge> cap then Inl (too_many cap) else Inr (), m))"

definition try_insert ::
  "nat \<Rightarrow> duration \<Rightarrow> instant \<Rightarrow> string \<Rightarrow> ('f, 'n) flow_entry \<Rightarrow> ('f, 'n) registry \<Rightarrow>
   unit result \<times> ('f, 'n) registry" where
  "try_insert cap d t fid e m =
     (if live_count t d m \<ge> cap then (Inl (too_many cap), m) else (Inr (), hm_insert fid e m))"

datatype ('f, 'n) taken =
    Flow 'f "pending_grant_flow option" 'n instant
  | Busy
  | Unknown

definition take_flow ::
  "duration \<Rightarrow> instant \<Rightarrow> string \<Rightarrow> ('f, 'n) registry \<Rightarrow> ('f, 'n) taken \<times> ('f, 'n) registry" where
  "take_flow d t fid m =
     (case (case hm_get m fid of
              None \<Rightarrow> (Unknown, m)
            | Some e \<Rightarrow>
                (case entry_flow e of
                   Some f \<Rightarrow> (Flow f (entry_pending e) (entry_cancelled e) (entry_started e),
                             hm_insert fid (e\<lparr>entry_flow := None\<rparr>) m)
                 | None \<Rightarrow> (Busy, m))) of
        (taken, m) \<Rightarrow> (taken, evict_expired t d m))"

definition put_back :: "string \<Rightarrow> 'f \<Rightarrow> ('f, 'n) registry \<Rightarrow> bool \<times> ('f, 'n) registry" where
  "put_back fid f m =
     (case hm_get m fid of
        Some e \<Rightarrow> (True, hm_insert fid (e\<lparr>entry_flow := Some f\<rparr>) m)
      | None \<Rightarrow> (False, m))"

subsection \<open>The calls\<close>

record ('f, 'n, 'v) handles_world =
  world_limits :: limits
  flows :: "('f, 'n) registry"
  beside :: 'v

record ('f, 's, 'n, 'w) handles_env =
  view :: "'f flow_view"
  clock_now :: "'w \<Rightarrow> instant"
  capabilities_try_from :: "string \<Rightarrow> string result"
  client_id_new :: "string \<Rightarrow> string result"
  url_parse :: "string \<Rightarrow> string result"
  builder_start :: "string \<Rightarrow> string \<Rightarrow> string option \<Rightarrow> 'w \<Rightarrow> (sdk_error + 'f) \<times> 'w"
  new_id :: "'w \<Rightarrow> string"
  new_notify :: "'w \<Rightarrow> 'n"
  notify_one :: "'n \<Rightarrow> 'w \<Rightarrow> 'w"
  try_poll_once :: "'f \<Rightarrow> 'w \<Rightarrow> (sdk_error + 's option) \<times> 'w"
  flow_restore :: "grant_flow_state \<Rightarrow> 'w \<Rightarrow> (sdk_error + 'f) \<times> 'w"
  pause :: "duration \<Rightarrow> 'n \<Rightarrow> 'w \<Rightarrow> bool \<times> 'w"
  lock_flows :: "'w \<Rightarrow> 'w"

type_synonym ('f, 's, 'n, 'v) handles = "('f, 's, 'n, ('f, 'n, 'v) handles_world) handles_env"

text \<open>
  \<open>pause d n\<close> is the \<^verbatim>\<open>select!\<close> of a sleep and \<^verbatim>\<open>cancelled.notified()\<close>: true when the notification came
  first. \<open>lock_flows\<close> is the wait for the lock of the registry after a flow was started, in which time passes
  and other threads run.
\<close>

definition handles_configure :: "nat \<Rightarrow> duration \<Rightarrow> ('f, 'n, 'v) handles_world \<Rightarrow>
  (nat \<times> duration) \<times> ('f, 'n, 'v) handles_world" where
  "handles_configure n d w =
     (let l = \<lparr>max_flows = max n 1, ttl = d\<rparr> in ((max_flows l, ttl l), w\<lparr>world_limits := l\<rparr>))"

definition world_ttl :: "('f, 'n, 'v) handles_world \<Rightarrow> duration" where
  "world_ttl w = ttl (world_limits w)"

definition sweep :: "('f, 's, 'n, 'v) handles \<Rightarrow> ('f, 'n, 'v) handles_world \<Rightarrow> ('f, 'n, 'v) handles_world" where
  "sweep E w = w\<lparr>flows := evict_expired (clock_now E w) (world_ttl w) (flows w)\<rparr>"

definition handle_start ::
  "('f, 's, 'n, 'v) handles \<Rightarrow> string \<Rightarrow> string \<Rightarrow> string option \<Rightarrow> ('f, 'n, 'v) handles_world \<Rightarrow>
   (string \<times> string) result \<times> ('f, 'n, 'v) handles_world" where
  "handle_start E capabilities client_id relay_arg w =
     (case capabilities_try_from E capabilities of
        Inl msg \<Rightarrow> (Inl (''Invalid capabilities: '' @ msg), w)
      | Inr caps \<Rightarrow>
     (case parse_client_id (client_id_new E) client_id of
        Inl msg \<Rightarrow> (Inl msg, w)
      | Inr cid \<Rightarrow>
     (case (case relay_arg of None \<Rightarrow> Inr None | Some r \<Rightarrow> map_sum (\<lambda>e. e) Some (url_parse E r)) of
        Inl msg \<Rightarrow> (Inl (''Invalid relay URL: '' @ msg), w)
      | Inr rel \<Rightarrow>
     (let cap = max_flows (world_limits w); d = world_ttl w in
      case admit cap d (clock_now E w) (flows w) of
        (Inl msg, m) \<Rightarrow> (Inl msg, w\<lparr>flows := m\<rparr>)
      | (Inr _, m) \<Rightarrow>
     (case builder_start E caps cid rel (w\<lparr>flows := m\<rparr>) of
        (Inl err, w) \<Rightarrow> (Inl (''Failed to start auth flow: '' @ full_error_chain err), w)
      | (Inr flow, w) \<Rightarrow>
         (let t = clock_now E w;
              entry = \<lparr>entry_flow = Some flow, entry_pending = pending_for (view E) flow 0 t,
                       entry_started = t, entry_cancelled = new_notify E w\<rparr>;
              fid = new_id E w;
              w = lock_flows E w in
          case try_insert cap d (clock_now E w) fid entry (flows w) of
            (Inl msg, m) \<Rightarrow> (Inl msg, w\<lparr>flows := m\<rparr>)
          | (Inr _, m) \<Rightarrow> (Inr (fid, authorization_url (view E) flow), w\<lparr>flows := m\<rparr>)))))))"

definition handle_take ::
  "('f, 's, 'n, 'v) handles \<Rightarrow> string \<Rightarrow> ('f, 'n, 'v) handles_world \<Rightarrow>
   ('f, 'n) taken \<times> ('f, 'n, 'v) handles_world" where
  "handle_take E fid w =
     (case take_flow (world_ttl w) (clock_now E w) fid (flows w) of (taken, m) \<Rightarrow> (taken, w\<lparr>flows := m\<rparr>))"

definition unknown :: "string \<Rightarrow> string" where
  "unknown fid = ''No auth flow with id '' @ fid"

definition was_cancelled :: "string \<Rightarrow> string" where
  "was_cancelled fid = ''Auth flow '' @ fid @ '' was cancelled''"

definition give_back :: "string \<Rightarrow> 'f \<Rightarrow> ('f, 'n, 'v) handles_world \<Rightarrow> bool \<times> ('f, 'n, 'v) handles_world" where
  "give_back fid f w = (case put_back fid f (flows w) of (b, m) \<Rightarrow> (b, w\<lparr>flows := m\<rparr>))"

definition remove_flow :: "string \<Rightarrow> ('f, 'n, 'v) handles_world \<Rightarrow> ('f, 'n, 'v) handles_world" where
  "remove_flow fid w = w\<lparr>flows := hm_remove fid (flows w)\<rparr>"

definition expired :: "('f, 's, 'n, 'v) handles \<Rightarrow> instant \<Rightarrow> ('f, 'n, 'v) handles_world \<Rightarrow> bool" where
  "expired E t w \<longleftrightarrow> clock_now E w - t > world_ttl w"

definition restored ::
  "('f, 's, 'n, 'v) handles \<Rightarrow> string \<Rightarrow> pending_grant_flow option \<Rightarrow> ('f, 'n, 'v) handles_world \<Rightarrow>
   'f result \<times> ('f, 'n, 'v) handles_world" where
  "restored E fid pending w =
     (case pending of
        None \<Rightarrow> (Inl (''Auth flow '' @ fid @ '' cannot be resumed''), w)
      | Some p \<Rightarrow>
          if expired E (started p) w then (Inl (''Auth flow '' @ fid @ '' expired before it was approved''), w)
          else (case flow_restore E (flow_state p) w of
                  (Inr f, w) \<Rightarrow> (Inr f, w)
                | (Inl err, w) \<Rightarrow>
                    (Inl (''Failed to rejoin the relay channel for auth flow '' @ fid @ '': '' @
                          full_error_chain err), w)))"

definition returned :: "string \<Rightarrow> 'f \<Rightarrow> ('f, 'n, 'v) handles_world \<Rightarrow>
  's outcome result \<times> ('f, 'n, 'v) handles_world" where
  "returned fid f w =
     (case give_back fid f w of (b, w) \<Rightarrow> (if b then Inr Pending else Inl (was_cancelled fid), w))"

definition rejoined ::
  "('f, 's, 'n, 'v) handles \<Rightarrow> string \<Rightarrow> pending_grant_flow option \<Rightarrow> ('f, 'n, 'v) handles_world \<Rightarrow>
   's outcome result \<times> ('f, 'n, 'v) handles_world" where
  "rejoined E fid pending w =
     (case restored E fid pending w of
        (Inr f, w) \<Rightarrow> returned fid f w
      | (Inl msg, w) \<Rightarrow> (Inl msg, remove_flow fid w))"

definition dead_relay_poll :: "pending_grant_flow option \<Rightarrow> sdk_error \<Rightarrow> bool" where
  "dead_relay_poll pending err =
     (case pending of Some p \<Rightarrow> is_relay_transport_failure err (relay p) | None \<Rightarrow> False)"

definition approval_failed :: "sdk_error \<Rightarrow> string" where
  "approval_failed err = ''Auth approval failed: '' @ full_error_chain err"

definition poll ::
  "('f, 's, 'n, 'v) handles \<Rightarrow> string \<Rightarrow> ('f, 'n, 'v) handles_world \<Rightarrow>
   's outcome result \<times> ('f, 'n, 'v) handles_world" where
  "poll E fid w =
     (case handle_take E fid w of
        (Busy, w) \<Rightarrow> (Inr Pending, w)
      | (Unknown, w) \<Rightarrow> (Inl (unknown fid), w)
      | (Flow flow pending _ start, w) \<Rightarrow>
          (case try_poll_once E flow w of
             (Inr (Some session), w) \<Rightarrow> (Inr (Approved session), remove_flow fid w)
           | (Inr None, w) \<Rightarrow>
               if expired E start w then (Inr Expired, remove_flow fid w) else returned fid flow w
           | (Inl err, w) \<Rightarrow>
               if dead_relay_poll pending err
               then (if expired E start w then (Inr Expired, remove_flow fid w) else rejoined E fid pending w)
               else (Inl (approval_failed err), remove_flow fid w)))"

text \<open>
  The loop of \<^verbatim>\<open>await_approval\<close>. One round looks at the channel and, when its listener is dead, backs off
  and rejoins; \<open>Inl\<close> is a return, \<open>Inr\<close> the flow to go on with. A run that never returns is
  \<^term>\<open>None\<close>.
\<close>

definition look ::
  "('f, 's, 'n, 'v) handles \<Rightarrow> string \<Rightarrow> pending_grant_flow option \<Rightarrow> 'n \<Rightarrow> instant \<Rightarrow> instant \<Rightarrow>
   'f \<Rightarrow> instant \<Rightarrow> u32 \<Rightarrow> ('f, 'n, 'v) handles_world \<Rightarrow>
   ('s outcome result + 'f \<times> instant \<times> u32) \<times> ('f, 'n, 'v) handles_world" where
  "look E fid pending cancelled start deadline flow listening_since quick_failures w =
     (case try_poll_once E flow w of
        (Inr (Some session), w) \<Rightarrow> (Inl (Inr (Approved session)), remove_flow fid w)
      | (Inr None, w) \<Rightarrow> (Inr (flow, listening_since, quick_failures), w)
      | (Inl err, w) \<Rightarrow>
          if \<not> dead_relay_poll pending err then (Inl (Inl (approval_failed err)), remove_flow fid w)
          else if expired E start w then (Inl (Inr Expired), remove_flow fid w)
          else
            (let q = (if clock_now E w - listening_since < QUICK_FAILURE
                      then (if quick_failures = - 1 then - 1 else quick_failures + 1) else 0);
                 wait = min (backoff q) (deadline - clock_now E w) in
             case pause E wait cancelled w of
               (True, w) \<Rightarrow> (Inl (Inl (was_cancelled fid)), w)
             | (False, w) \<Rightarrow>
                 if expired E start w then (Inl (Inr Expired), remove_flow fid w)
                 else (case restored E fid pending w of
                         (Inl msg, w) \<Rightarrow> (Inl (Inl msg), remove_flow fid w)
                       | (Inr f, w) \<Rightarrow> (Inr (f, clock_now E w, q), w))))"

partial_function (option) await_flow ::
  "('f, 's, 'n, 'v) handles \<Rightarrow> string \<Rightarrow> pending_grant_flow option \<Rightarrow> 'n \<Rightarrow> instant \<Rightarrow> instant \<Rightarrow>
   'f \<Rightarrow> instant \<Rightarrow> u32 \<Rightarrow> ('f, 'n, 'v) handles_world \<Rightarrow>
   ('s outcome result \<times> ('f, 'n, 'v) handles_world) option" where
  "await_flow E fid pending cancelled start deadline flow listening_since quick_failures w =
     (case look E fid pending cancelled start deadline flow listening_since quick_failures w of
        (Inl r, w) \<Rightarrow> Some (r, w)
      | (Inr x, w) \<Rightarrow>
          if expired E start w then Some (Inr Expired, remove_flow fid w)
          else if clock_now E w \<ge> deadline then Some (returned fid (fst x) w)
          else (case pause E (min AWAIT_POLL_INTERVAL (deadline - clock_now E w)) cancelled w of
                  (notified, w) \<Rightarrow>
                    if notified then Some (Inl (was_cancelled fid), w)
                    else await_flow E fid pending cancelled start deadline
                           (fst x) (fst (snd x)) (snd (snd x)) w))"

definition await_approval ::
  "('f, 's, 'n, 'v) handles \<Rightarrow> string \<Rightarrow> duration \<Rightarrow> ('f, 'n, 'v) handles_world \<Rightarrow>
   ('s outcome result \<times> ('f, 'n, 'v) handles_world) option" where
  "await_approval E fid timeout w =
     (case handle_take E fid w of
        (Busy, w) \<Rightarrow> Some (Inl (''Auth flow '' @ fid @ '' is already being awaited''), w)
      | (Unknown, w) \<Rightarrow> Some (Inl (unknown fid), w)
      | (Flow flow pending cancelled start, w) \<Rightarrow>
          await_flow E fid pending cancelled start (clock_now E w + timeout) flow start 0 w)"

definition cancel ::
  "('f, 's, 'n, 'v) handles \<Rightarrow> string \<Rightarrow> ('f, 'n, 'v) handles_world \<Rightarrow> bool \<times> ('f, 'n, 'v) handles_world" where
  "cancel E fid w =
     (let w = sweep E w in
      case hm_get (flows w) fid of
        Some e \<Rightarrow> (True, notify_one E (entry_cancelled e) (remove_flow fid w))
      | None \<Rightarrow> (False, w))"


subsection \<open>The registry under concurrent calls\<close>

text \<open>
  The critical sections that calls on any number of threads perform, with the clock running between
  them. A start works with the limits it read at its beginning, which may have been reconfigured since: its
  cap is at most \<open>cap\<close> and its TTL at least \<open>d\<close>. The others read the TTL as they begin. A flow's age counts
  from before its start waits for the lock; \<open>delay\<close> bounds that wait.
\<close>

inductive flows_step ::
  "nat \<Rightarrow> duration \<Rightarrow> duration \<Rightarrow> instant \<times> ('f, 'n) registry \<Rightarrow> instant \<times> ('f, 'n) registry \<Rightarrow> bool"
  for cap d delay where
  passes: "t \<le> t' \<Longrightarrow> flows_step cap d delay (t, m) (t', m)"
| admits: "flows_step cap d delay (t, m) (t, snd (admit n d' t m))"
| inserts: "n \<le> cap \<Longrightarrow> d \<le> d' \<Longrightarrow> entry_started e \<le> t \<Longrightarrow> t \<le> entry_started e + delay \<Longrightarrow>
    flows_step cap d delay (t, m) (t, snd (try_insert n d' t fid e m))"
| takes: "flows_step cap d delay (t, m) (t, snd (take_flow d' t fid m))"
| gives_back: "flows_step cap d delay (t, m) (t, snd (put_back fid f m))"
| removes: "flows_step cap d delay (t, m) (t, hm_remove fid m)"
| sweeps: "flows_step cap d delay (t, m) (t, evict_expired t d' m)"

inductive flows_reachable :: "nat \<Rightarrow> duration \<Rightarrow> duration \<Rightarrow> instant \<times> ('f, 'n) registry \<Rightarrow> bool" for cap d delay where
  empty: "flows_reachable cap d delay (t, [])"
| step: "flows_reachable cap d delay x \<Longrightarrow> flows_step cap d delay x y \<Longrightarrow> flows_reachable cap d delay y"

text \<open>
  The invariant: flows started in the past, at most \<open>cap\<close> are inside the TTL, and, when no wait is longer
  than the TTL, at most \<open>cap\<close> of those kept were started in any span of time as long as the TTL less the wait.
\<close>

definition started_in :: "instant \<Rightarrow> instant \<Rightarrow> string \<times> ('f, 'n) flow_entry \<Rightarrow> bool" where
  "started_in u v x \<longleftrightarrow> u \<le> entry_started (snd x) \<and> entry_started (snd x) \<le> v"

definition flows_inv :: "nat \<Rightarrow> duration \<Rightarrow> duration \<Rightarrow> instant \<times> ('f, 'n) registry \<Rightarrow> bool" where
  "flows_inv cap d delay x \<longleftrightarrow>
     (\<forall>y\<in>set (snd x). entry_started (snd y) \<le> fst x) \<and> live_count (fst x) d (snd x) \<le> cap \<and>
     (delay \<le> d \<longrightarrow> (\<forall>u. length (filter (started_in u (u + (d - delay))) (snd x)) \<le> cap))"

lemma evict_as_filter:
  "evict_expired t d m = filter (\<lambda>x. entry_flow (snd x) = None \<or> t - entry_started (snd x) \<le> collectable_for d) m"
  unfolding evict_expired_def by (rule filter_cong) auto

lemma live_count_alt: "live_count t d m = length (filter (\<lambda>x. t - entry_started (snd x) \<le> d) m)"
  unfolding live_count_def by (rule arg_cong [where f = length], rule filter_cong) auto

lemma length_filter_imp: "\<forall>y\<in>set m. P y \<longrightarrow> Q y \<Longrightarrow> length (filter P m) \<le> length (filter Q m)"
  by (induction m) auto

lemma live_count_mono: "t \<le> t' \<Longrightarrow> d \<le> d' \<Longrightarrow> live_count t' d m \<le> live_count t d' m"
  unfolding live_count_alt by (rule length_filter_imp) auto

lemma flows_inv_filter: "flows_inv cap d delay (t, m) \<Longrightarrow> flows_inv cap d delay (t, filter Q m)"
  unfolding flows_inv_def live_count_alt
  by (auto simp del: filter_filter intro: le_trans [OF length_filter_filter])

lemma flows_inv_evict: "flows_inv cap d delay (t, m) \<Longrightarrow> flows_inv cap d delay (t, evict_expired u d' m)"
  by (simp add: evict_as_filter flows_inv_filter)

lemma flows_inv_update:
  assumes "flows_inv cap d delay (t, m)" and "hm_get m k = Some e" and "entry_started v = entry_started e"
  shows "flows_inv cap d delay (t, hm_insert k v m)"
proof -
  have "length (filter P (hm_insert k v m)) \<le> length (filter P m)" if "P (k, v) = P (k, e)" for P
    using length_filter_update [OF assms(2)] that by blast
  then have "live_count t d (hm_insert k v m) \<le> live_count t d m"
    and "length (filter (started_in u u') (hm_insert k v m)) \<le> length (filter (started_in u u') m)" for u u'
    using assms(3) by (auto simp: live_count_alt started_in_def)
  moreover have "entry_started e \<le> t"
    using assms hm_get_in_set [OF assms(2)] by (fastforce simp: flows_inv_def)
  ultimately show ?thesis
    using assms unfolding flows_inv_def by (auto dest!: hm_insert_in_set) (meson le_trans)+
qed

lemma flows_inv_insert:
  assumes inv: "flows_inv cap d delay (t, m)" and e: "entry_started e \<le> t" "t \<le> entry_started e + delay"
    and room: "live_count t d m < cap"
  shows "flows_inv cap d delay (t, hm_insert k e m)"
proof -
  have "length (filter (started_in u (u + (d - delay))) (hm_insert k e m)) \<le> cap" if "delay \<le> d" for u
  proof (cases "started_in u (u + (d - delay)) (k, e)")
    case True
    have "length (filter (started_in u (u + (d - delay))) m) \<le> live_count t d m"
      unfolding live_count_alt using True e that by (intro length_filter_imp) (auto simp: started_in_def)
    then show ?thesis
      using room length_filter_insert [of "started_in u (u + (d - delay))" k e m] by simp
  next
    case False
    then show ?thesis
      using inv that length_filter_insert_other [of "started_in u (u + (d - delay))" k e m]
      unfolding flows_inv_def by (metis le_trans snd_conv)
  qed
  moreover have "live_count t d (hm_insert k e m) \<le> cap"
    using room length_filter_insert [of "\<lambda>x. t - entry_started (snd x) \<le> d" k e m] by (simp add: live_count_alt)
  ultimately show ?thesis
    using inv e unfolding flows_inv_def by (auto dest!: hm_insert_in_set)
qed

lemma flows_step_inv: "flows_step cap d delay x y \<Longrightarrow> flows_inv cap d delay x \<Longrightarrow> flows_inv cap d delay y"
proof (induction rule: flows_step.induct)
  case (passes t t' m)
  then show ?case
    using live_count_mono [OF passes(1), of d d m] unfolding flows_inv_def by force
next
  case (inserts n d' e t m fid)
  then show ?case
    using live_count_mono [of t t d d' m]
    by (auto simp: try_insert_def intro!: flows_inv_insert)
next
  case (takes t m d' fid)
  then show ?case
    by (auto simp: take_flow_def intro!: flows_inv_evict split: option.split prod.split)
      (auto intro: flows_inv_update split: option.splits)
next
  case (gives_back t m fid f)
  then show ?case by (auto simp: put_back_def intro: flows_inv_update split: option.split)
qed (auto simp: admit_def Let_def hm_remove_filter intro: flows_inv_evict flows_inv_filter)

lemma flows_reachable_inv: "flows_reachable cap d delay x \<Longrightarrow> flows_inv cap d delay x"
proof (induction rule: flows_reachable.induct)
  case (empty t)
  then show ?case by (simp add: flows_inv_def live_count_def)
next
  case (step x y)
  then show ?case by (blast intro: flows_step_inv)
qed

lemma length_filter_union:
  "\<forall>y\<in>set m. P y \<longrightarrow> Q y \<or> R y \<Longrightarrow> length (filter P m) \<le> length (filter Q m) + length (filter R m)"
  by (induction m) auto

text \<open>What a sweep keeps was started in the last two TTLs: three spans, or two when no start waits.\<close>

lemma kept_flows:
  assumes inv: "flows_inv cap d delay (t, m)"
  shows "3 * delay \<le> d \<Longrightarrow> length (filter (\<lambda>x. entry_flow (snd x) \<noteq> None) (evict_expired t d m)) \<le> 3 * cap"
    and "delay = 0 \<Longrightarrow> length (filter (\<lambda>x. entry_flow (snd x) \<noteq> None) (evict_expired t d m)) \<le> 2 * cap"
proof -
  let ?kept = "\<lambda>x :: string \<times> ('a, 'b) flow_entry. entry_flow (snd x) \<noteq> None \<and> t - entry_started (snd x) \<le> collectable_for d"
  let ?l = "d - delay"
  let ?in = "\<lambda>u. started_in u (u + ?l)"
  have two: "collectable_for d \<le> 2 * d"
    by (simp add: collectable_for_def saturating_mul_def)
  have all: "length (filter (\<lambda>x. entry_flow (snd x) \<noteq> None) (evict_expired t d m)) = length (filter ?kept m)"
    by (simp add: evict_as_filter conj_commute) (rule arg_cong [where f = length], rule filter_cong, auto)
  have span: "length (filter (?in u) m) \<le> cap" if "delay \<le> d" for u
    using inv that by (simp add: flows_inv_def)
  have old: "\<forall>y\<in>set m. entry_started (snd y) \<le> t" using inv by (simp add: flows_inv_def)
  show "length (filter (\<lambda>x. entry_flow (snd x) \<noteq> None) (evict_expired t d m)) \<le> 3 * cap" if "3 * delay \<le> d"
  proof -
    have "\<forall>y\<in>set m. ?kept y \<longrightarrow> ?in (t - ?l) y \<or> (?in (t - 2 * ?l) y \<or> ?in (t - 3 * ?l) y)"
      using old two that by (auto simp: started_in_def)
    then have "length (filter ?kept m) \<le> length (filter (?in (t - ?l)) m) +
        (length (filter (?in (t - 2 * ?l)) m) + length (filter (?in (t - 3 * ?l)) m))"
      using length_filter_union [of m ?kept "?in (t - ?l)" "\<lambda>y. ?in (t - 2 * ?l) y \<or> ?in (t - 3 * ?l) y"]
        length_filter_union [of m "\<lambda>y. ?in (t - 2 * ?l) y \<or> ?in (t - 3 * ?l) y" "?in (t - 2 * ?l)" "?in (t - 3 * ?l)"]
      by simp
    then show ?thesis using span [of "t - ?l"] span [of "t - 2 * ?l"] span [of "t - 3 * ?l"] all that by linarith
  qed
  show "length (filter (\<lambda>x. entry_flow (snd x) \<noteq> None) (evict_expired t d m)) \<le> 2 * cap" if "delay = 0"
  proof -
    have "\<forall>y\<in>set m. ?kept y \<longrightarrow> ?in (t - ?l) y \<or> ?in (t - 2 * ?l) y"
      using old two that by (auto simp: started_in_def)
    from length_filter_union [OF this] show ?thesis
      using span [of "t - ?l"] span [of "t - 2 * ?l"] all that by linarith
  qed
qed

subsection \<open>What a call finds\<close>

text \<open>The world in which a call looks at the flow it took.\<close>

definition taken_world ::
  "('f, 's, 'n, 'v) handles \<Rightarrow> string \<Rightarrow> ('f, 'n) flow_entry \<Rightarrow> ('f, 'n, 'v) handles_world \<Rightarrow>
   ('f, 'n, 'v) handles_world" where
  "taken_world E fid e w =
     w\<lparr>flows := evict_expired (clock_now E w) (world_ttl w)
        (hm_insert fid (e\<lparr>entry_flow := None\<rparr>) (flows w))\<rparr>"

lemma take_unknown:
  "hm_get (flows w) fid = None \<Longrightarrow> handle_take E fid w = (Unknown, sweep E w)"
  by (simp add: handle_take_def take_flow_def sweep_def)

lemma take_busy:
  "hm_get (flows w) fid = Some e \<Longrightarrow> entry_flow e = None \<Longrightarrow> handle_take E fid w = (Busy, sweep E w)"
  by (simp add: handle_take_def take_flow_def sweep_def)

lemma take_idle:
  "hm_get (flows w) fid = Some e \<Longrightarrow> entry_flow e = Some f \<Longrightarrow>
   handle_take E fid w =
     (Flow f (entry_pending e) (entry_cancelled e) (entry_started e), taken_world E fid e w)"
  by (simp add: handle_take_def take_flow_def taken_world_def)

lemmas take_cases = take_unknown take_busy take_idle

lemma flows_remove_flow [simp]: "hm_get (flows (remove_flow fid w)) fid = None"
  by (simp add: remove_flow_def)

lemma sweep_keeps_busy:
  assumes "hm_ok (flows w)" and "hm_get (flows w) fid = Some e" and "entry_flow e = None"
  shows "hm_get (flows (sweep E w)) fid = Some e"
  using assms by (simp add: sweep_def evict_expired_def hm_get_filter)

text \<open>An answer that ends the flow.\<close>

fun ends :: "'s outcome result \<Rightarrow> bool" where
  "ends (Inr (Approved s)) = True"
| "ends (Inr Expired) = True"
| "ends _ = False"

lemma returned_cases:
  "returned fid f w = (r, w') \<Longrightarrow>
   (r = Inr Pending \<and> (\<exists>e. hm_get (flows w') fid = Some e \<and> entry_flow e = Some f)) \<or>
   (r = Inl (was_cancelled fid) \<and> w' = w \<and> hm_get (flows w) fid = None)"
  by (auto simp: returned_def give_back_def put_back_def split: option.splits prod.splits)

lemma rejoined_not_ending: "rejoined E fid pending w = (r, w') \<Longrightarrow> \<not> ends r"
  by (auto simp: rejoined_def split: prod.splits sum.splits dest: returned_cases)

lemma poll_ends: "poll E fid w = (r, w') \<Longrightarrow> ends r \<Longrightarrow> hm_get (flows w') fid = None"
  by (auto simp: poll_def split: prod.splits taken.splits sum.splits option.splits if_splits
      dest: returned_cases rejoined_not_ending)

lemma look_ends:
  "look E fid pending c start deadline f since q w = (Inl r, w') \<Longrightarrow>
   r \<noteq> Inr Pending \<and> (ends r \<longrightarrow> hm_get (flows w') fid = None)"
  by (auto simp: look_def Let_def split: prod.splits sum.splits option.splits if_splits bool.splits)

lemma await_flow_result:
  "await_flow E fid pending c start deadline f since q w = Some x \<Longrightarrow>
   (ends (fst x) \<longrightarrow> hm_get (flows (snd x)) fid = None) \<and>
   (fst x = Inr Pending \<longrightarrow> (\<exists>e g. hm_get (flows (snd x)) fid = Some e \<and> entry_flow e = Some g))"
proof (induction rule: await_flow.raw_induct [rotated, consumes 1])
  case (1 rec E fid pending c start deadline f since q w x)
  obtain y w1 where y: "look E fid pending c start deadline f since q w = (y, w1)" by fastforce
  show ?case
  proof (cases y)
    case (Inl r)
    with y 1(2) show ?thesis using look_ends [of E fid pending c start deadline f since q w] by auto
  next
    case (Inr z)
    show ?thesis
      using 1(2) y Inr returned_cases [of fid "fst z" w1 "fst x" "snd x"] 1(1)
      by (auto split: if_splits prod.splits)
  qed
qed

lemma await_result:
  assumes "await_approval E fid timeout w = Some (r, w')"
  shows "(ends r \<longrightarrow> hm_get (flows w') fid = None) \<and>
    (r = Inr Pending \<longrightarrow> (\<exists>e f. hm_get (flows w') fid = Some e \<and> entry_flow e = Some f))"
  using assms await_flow_result [of E fid _ _ _ _ _ _ _ _ "(r, w')"]
  unfolding await_approval_def by (auto split: prod.splits taken.splits)

subsection \<open>The await ends\<close>

text \<open>
  What an await relies on: nothing turns the clock back, and a pause that was not cut short by a
  cancellation lasts as long as asked; whether a flow is still in the map does not change the time.
\<close>

definition pause_contract :: "('f, 's, 'n, 'v) handles \<Rightarrow> bool" where
  "pause_contract E \<longleftrightarrow>
     (\<forall>d n w w'. pause E d n w = (False, w') \<longrightarrow> clock_now E w + d \<le> clock_now E w') \<and>
     (\<forall>f w. clock_now E w \<le> clock_now E (snd (try_poll_once E f w))) \<and>
     (\<forall>st w. clock_now E w \<le> clock_now E (snd (flow_restore E st w)))"

lemma restored_clock: "pause_contract E \<Longrightarrow> restored E fid pending w = (r, w') \<Longrightarrow> clock_now E w \<le> clock_now E w'"
  unfolding pause_contract_def restored_def
  by (auto split: option.splits if_splits prod.splits sum.splits) (metis snd_conv)+

lemma look_clock:
  assumes c: "pause_contract E"
    and l: "look E fid pending n start deadline f since q w = (Inr x, w')"
  shows "clock_now E w \<le> clock_now E w'"
proof -
  obtain a w1 where a: "try_poll_once E f w = (a, w1)" by fastforce
  then have w1: "clock_now E w \<le> clock_now E w1"
    using c unfolding pause_contract_def by (metis snd_conv)
  have ps: "clock_now E w1 \<le> clock_now E w2" if "pause E d n w1 = (False, w2)" for d w2
    using c that unfolding pause_contract_def by (meson add_leD1)
  show ?thesis
    using l a w1
    by (auto simp: look_def Let_def split: sum.splits option.splits prod.splits if_splits bool.splits
        dest!: ps restored_clock [OF c])
qed

lemma await_flow_returns:
  assumes c: "pause_contract E"
  shows "\<exists>x. await_flow E fid pending n start deadline f since q w = Some x"
proof (induction "deadline - clock_now E w" arbitrary: f since q w rule: less_induct)
  case less
  note step = await_flow.simps [of E fid pending n start deadline f since q w]
  obtain y w1 where y: "look E fid pending n start deadline f since q w = (y, w1)" by fastforce
  show ?case
  proof (cases "(\<exists>z. y = Inr z) \<and> \<not> expired E start w1 \<and> clock_now E w1 < deadline")
    case False
    then show ?thesis by (subst step) (auto simp: y split: sum.split)
  next
    case True
    then obtain z where z: "y = Inr z" by blast
    let ?d = "min AWAIT_POLL_INTERVAL (deadline - clock_now E w1)"
    obtain b w2 where b: "pause E ?d n w1 = (b, w2)" by fastforce
    have "deadline - clock_now E w2 < deadline - clock_now E w" if "\<not> b"
    proof -
      have "clock_now E w1 + ?d \<le> clock_now E w2"
        using c b that unfolding pause_contract_def by auto
      moreover have "0 < ?d" using True by (simp add: AWAIT_POLL_INTERVAL_def from_millis_def)
      moreover have "clock_now E w \<le> clock_now E w1"
        using look_clock [OF c] y z by blast
      ultimately show ?thesis using True by linarith
    qed
    then show ?thesis
      using less [of w2 "fst z" "fst (snd z)" "snd (snd z)"] True
      by (subst step) (auto simp: y z b)
  qed
qed


subsection \<open>Properties\<close>

text \<open>An example: flow 9 has been approved with session 5, every other flow is still waiting.\<close>

definition example_handles :: "(nat, nat, nat, nat) handles" where
  "example_handles =
     \<lparr>view = \<lparr>authorization_url = \<lambda>_. ''pubkyauth:x'', query_pairs = \<lambda>_. [], save_local = \<lambda>_. None\<rparr>,
      clock_now = beside, capabilities_try_from = Inr, client_id_new = Inr, url_parse = Inr,
      builder_start = \<lambda>_ _ _ w. (Inr 7, w), new_id = \<lambda>_. ''b'', new_notify = \<lambda>_. 0,
      notify_one = \<lambda>_ w. w, try_poll_once = \<lambda>f w. (Inr (if f = 9 then Some 5 else None), w),
      flow_restore = \<lambda>_ w. (Inr 7, w), pause = \<lambda>d _ w. (False, w\<lparr>beside := beside w + d\<rparr>),
      lock_flows = \<lambda>w. w\<rparr>"

definition example_world :: "nat option \<Rightarrow> instant \<Rightarrow> (nat, nat, nat) handles_world" where
  "example_world f t =
     \<lparr>world_limits = \<lparr>max_flows = 2, ttl = from_secs 300\<rparr>,
      flows = [(''a'', \<lparr>entry_flow = f, entry_pending = None, entry_started = 0, entry_cancelled = 0\<rparr>)],
      beside = t\<rparr>"

lemmas example_simps = example_handles_def example_world_def poll_def handle_take_def take_flow_def
  hm_get_def hm_insert_def hm_remove_def evict_expired_def collectable_for_def saturating_mul_def duration_max_def
  world_ttl_def from_secs_def expired_def remove_flow_def

text \<open>
  The steps of all calls, except that none of them inserts a flow under the id \<open>fid\<close>; ids are 128 random
  bits. A withdrawn id stays absent, because giving a flow back never makes an entry.
\<close>

inductive step_beside ::
  "string \<Rightarrow> nat \<Rightarrow> duration \<Rightarrow> instant \<times> ('f, 'n) registry \<Rightarrow> instant \<times> ('f, 'n) registry \<Rightarrow> bool" for fid cap d where
  passes_b: "t \<le> t' \<Longrightarrow> step_beside fid cap d (t, m) (t', m)"
| admits_b: "step_beside fid cap d (t, m) (t, snd (admit cap d t m))"
| inserts_b: "k \<noteq> fid \<Longrightarrow> step_beside fid cap d (t, m) (t, snd (try_insert cap d t k e m))"
| takes_b: "step_beside fid cap d (t, m) (t, snd (take_flow d t k m))"
| gives_back_b: "step_beside fid cap d (t, m) (t, snd (put_back k f m))"
| removes_b: "step_beside fid cap d (t, m) (t, hm_remove k m)"
| sweeps_b: "step_beside fid cap d (t, m) (t, evict_expired t d m)"

lemma evict_absent [simp]: "hm_get m k = None \<Longrightarrow> hm_get (evict_expired t d m) k = None"
  by (auto simp: evict_as_filter hm_get_def map_of_eq_None_iff)

lemma step_beside_absent: "step_beside fid cap d x y \<Longrightarrow> hm_get (snd x) fid = None \<Longrightarrow> hm_get (snd y) fid = None"
  by (induction rule: step_beside.induct)
    (auto simp: admit_def try_insert_def take_flow_def put_back_def Let_def
      intro!: evict_absent split: option.splits)

interpretation registry_id: withdrawal
  "\<lambda>x. hm_get (snd x) fid \<noteq> None" "step_beside fid cap d" "\<lambda>x. (fst x, hm_remove fid (snd x))"
  for fid :: string and cap :: nat and d :: duration
  by unfold_locales (auto dest: step_beside_absent)

text \<open>
  C10 (safety). A flow that is over stays over. When a poll or an await answered approved or expired, or
  the flow was cancelled, then whatever other calls do afterwards, on any thread and in any order,
  including giving back the flow a racing call still holds, the id is unknown: no approval is handed out
  twice and a cancelled flow does not come back.
\<close>

theorem final_answer_given_once:
  assumes "poll E fid w = (r, w') \<and> ends r \<or> await_approval E fid timeout w = Some (r, w') \<and> ends r \<or>
      w' = snd (cancel E fid w) \<and> (\<forall>n v. flows (notify_one E n v) = flows v)"
    and "(step_beside fid cap d)\<^sup>*\<^sup>* (t, flows w') (t', m)"
  shows "poll E fid (v\<lparr>flows := m\<rparr>) = (Inl (unknown fid), sweep E (v\<lparr>flows := m\<rparr>))"
proof -
  have "hm_get (flows (snd (cancel E fid w))) fid = None" if "\<forall>n v. flows (notify_one E n v) = flows v"
    using that by (auto simp: cancel_def Let_def split: option.splits)
  then have "hm_get (flows w') fid = None"
    using assms(1) poll_ends await_result by blast
  then have "hm_get m fid = None"
    using registry_id.stays_absent [OF assms(2)] by simp
  then show ?thesis by (simp add: poll_def take_unknown)
qed

theorem final_answer_given_once_witness:
  "poll example_handles ''a'' (example_world (Some 9) 1) = (Inr (Approved 5), (example_world None 1)\<lparr>flows := []\<rparr>) \<and>
   poll example_handles ''a'' ((example_world None 1)\<lparr>flows := []\<rparr>) =
     (Inl (unknown ''a''), sweep example_handles ((example_world None 1)\<lparr>flows := []\<rparr>))"
proof -
  have p: "poll example_handles ''a'' (example_world (Some 9) 1) =
      (Inr (Approved 5), (example_world None 1)\<lparr>flows := []\<rparr>)"
    by (simp add: example_simps)
  moreover have "(step_beside ''a'' 1 1)\<^sup>*\<^sup>* (0, flows ((example_world None 1)\<lparr>flows := []\<rparr>))
      (0, snd (put_back ''a'' 9 ([] :: (nat, nat) registry)))"
    using step_beside.gives_back_b [of "''a''" 1 1 0 "[] :: (nat, nat) registry" "''a''" 9] by simp
  then have "(step_beside ''a'' 1 1)\<^sup>*\<^sup>* (0, flows ((example_world None 1)\<lparr>flows := []\<rparr>)) (0, [])"
    by (simp add: put_back_def)
  ultimately show ?thesis
    using final_answer_given_once [OF disjI1, OF conjI, OF p, of 1 1 0 0 "[]" "example_world None 1"] by simp
qed

text \<open>
  C15 (safety). Expired is not the same as gone. A poll of a flow that nobody else is looking at hands
  out an approval that is already in the channel however old the flow is, and answers expired only
  after it has looked, found none, and seen that more than the TTL has passed; a look that finds
  nothing is answered expired exactly then.
\<close>

theorem expired_only_after_a_look:
  assumes "hm_get (flows w) fid = Some e" and "entry_flow e = Some f"
    and "try_poll_once E f (taken_world E fid e w) = (a, w1)"
  shows "(\<forall>s. a = Inr (Some s) \<longrightarrow> poll E fid w = (Inr (Approved s), remove_flow fid w1)) \<and>
    (\<forall>w'. poll E fid w = (Inr Expired, w') \<longrightarrow>
       (\<forall>s. a \<noteq> Inr (Some s)) \<and> clock_now E w1 - entry_started e > ttl (world_limits w1) \<and>
       w' = remove_flow fid w1) \<and>
    (a = Inr None \<longrightarrow> (fst (poll E fid w) = Inr Expired \<longleftrightarrow> clock_now E w1 - entry_started e > ttl (world_limits w1)))"
proof (intro conjI)
  show "a = Inr None \<longrightarrow>
      (fst (poll E fid w) = Inr Expired \<longleftrightarrow> clock_now E w1 - entry_started e > ttl (world_limits w1))"
    using assms by (auto simp: poll_def take_idle expired_def world_ttl_def returned_def split: prod.splits)
qed (use assms in \<open>auto simp: poll_def take_idle expired_def world_ttl_def split: sum.splits option.splits if_splits
      dest: returned_cases rejoined_not_ending\<close>)

theorem expired_only_after_a_look_witness:
  "poll example_handles ''a'' (example_world (Some 9) (from_secs 301)) =
     (Inr (Approved 5), (example_world None (from_secs 301))\<lparr>flows := []\<rparr>)"
  using expired_only_after_a_look [of "example_world (Some 9) (from_secs 301)" "''a''" _ 9 example_handles
      "Inr (Some 5)"]
  by (simp add: taken_world_def example_simps)

text \<open>
  Two calls never hold one flow. While a poll or an await holds it, another poll answers
  pending and another await is refused, neither looks at the relay, and the sweep of either leaves the
  held flow in place; and when the flow was cancelled meanwhile, the call that held it does not put it
  back.
\<close>

theorem held_flow_is_left_alone:
  assumes "hm_ok (flows w)" and "hm_get (flows w) fid = Some e" and "entry_flow e = None"
  shows "poll E fid w = (Inr Pending, sweep E w) \<and>
    await_approval E fid timeout w = Some (Inl (''Auth flow '' @ fid @ '' is already being awaited''), sweep E w) \<and>
    hm_get (flows (sweep E w)) fid = Some e \<and>
    returned fid f (remove_flow fid w) = (Inl (was_cancelled fid), remove_flow fid w)"
  using assms sweep_keeps_busy [OF assms]
  by (simp add: poll_def await_approval_def take_busy returned_def give_back_def put_back_def remove_flow_def)

theorem held_flow_is_left_alone_witness:
  "fst (poll example_handles ''a'' (example_world None (from_secs 700))) = Inr Pending \<and>
   hm_get (flows (sweep example_handles (example_world None (from_secs 700)))) ''a'' \<noteq> None"
proof -
  have "hm_get (flows (example_world None (from_secs 700))) ''a'' =
      Some \<lparr>entry_flow = None, entry_pending = None, entry_started = 0, entry_cancelled = 0\<rparr>"
    by (simp add: example_world_def hm_get_def)
  from held_flow_is_left_alone [OF _ this, of example_handles 0 0] show ?thesis
    by (auto simp: example_world_def)
qed

text \<open>
  The cap is not advisory: when \<^verbatim>\<open>start\<close> succeeds, the flows inside their TTL at the moment it holds the
  lock, the new one included, are at most the maximum it read, whatever other threads did while the relay
  channel was opened and while it waited.
\<close>

theorem start_respects_cap:
  assumes "handle_start E caps cid rel w = (Inr (fid, url), w')"
  shows "\<exists>v e. w' = v\<lparr>flows := hm_insert fid e (flows v)\<rparr> \<and> entry_flow e \<noteq> None \<and>
    live_count (clock_now E v) (world_ttl w) (flows w') \<le> max_flows (world_limits w)"
proof -
  obtain v e where v: "try_insert (max_flows (world_limits w)) (world_ttl w) (clock_now E v) fid e (flows v) = (Inr (), flows w')"
    "w' = v\<lparr>flows := flows w'\<rparr>" "entry_flow e \<noteq> None"
    using assms unfolding handle_start_def Let_def
    by (auto split: sum.splits prod.splits option.splits)
  then have "live_count (clock_now E v) (world_ttl w) (flows v) < max_flows (world_limits w)"
    and m: "flows w' = hm_insert fid e (flows v)"
    by (auto simp: try_insert_def split: if_splits)
  then have "live_count (clock_now E v) (world_ttl w) (flows w') \<le> max_flows (world_limits w)"
    by (auto simp: live_count_def m intro: le_trans [OF length_filter_insert])
  then show ?thesis using v(2,3) m by metis
qed

theorem start_respects_cap_witness:
  "\<exists>w'. handle_start example_handles ''/pub/:rw'' ''app'' None (example_world None 1) =
      (Inr (''b'', ''pubkyauth:x''), w') \<and> (\<exists>t. live_count t (from_secs 300) (flows w') \<le> 2)"
proof -
  let ?r = "handle_start example_handles ''/pub/:rw'' ''app'' None (example_world None 1)"
  have r: "?r = (Inr (''b'', ''pubkyauth:x''), snd ?r)"
    by (simp add: handle_start_def admit_def try_insert_def live_count_def parse_client_id_def example_simps Let_def)
  then show ?thesis
    using start_respects_cap [OF r] by (auto simp: example_world_def world_ttl_def)
qed



text \<open>
  C17 (termination). An await always returns, whatever the relay does, provided the clock does not
  run backwards and a pause lasts as long as asked; and when it answers pending, the flow is back in
  the registry and can be polled or awaited again.
\<close>

theorem await_returns_and_keeps_pending_flow:
  assumes "pause_contract E"
  shows "\<exists>r w'. await_approval E fid timeout w = Some (r, w') \<and>
    (r = Inr Pending \<longrightarrow> (\<exists>e f. hm_get (flows w') fid = Some e \<and> entry_flow e = Some f))"
proof -
  have "\<exists>x. await_approval E fid timeout w = Some x"
    using await_flow_returns [OF assms] unfolding await_approval_def
    by (auto split: prod.splits taken.splits)
  then show ?thesis using await_result by fastforce
qed

theorem await_returns_and_keeps_pending_flow_witness:
  "\<exists>r w'. await_approval example_handles ''a'' (from_secs 2) (example_world (Some 1) 0) = Some (r, w')"
  using await_returns_and_keeps_pending_flow [of example_handles "''a''" "from_secs 2" "example_world (Some 1) 0"]
  by (auto simp: pause_contract_def example_handles_def)

end
