(* ===== verification/Cookie_Exchange.thy ===== *)
theory Cookie_Exchange
  imports Sdk_Errors
begin

section \<open>Exchanging an approved cookie-flow token\<close>

text \<open>
  Models \<^verbatim>\<open>src/cookie_exchange.rs\<close>: the homeserver is resolved with retries, then the token is spent,
  and only an exchange whose request cannot have reached the homeserver is repeated; all inside one
  budget from the token's arrival.

  Parameters: the clock, \<^verbatim>\<open>tokio\<close>'s \<^verbatim>\<open>sleep\<close> and \<^verbatim>\<open>timeout\<close> (once for each type of future it wraps),
  \<^verbatim>\<open>PublicKey::try_from_z32\<close>, the \<^verbatim>\<open>pkarr\<close> lookups and \<^verbatim>\<open>CookieCredential::from_auth_token\<close>.
\<close>

definition UNRESOLVED :: string where
  "UNRESOLVED = ''Homeserver could not be resolved''"

definition NO_RECORD :: string where
  "NO_RECORD = ''No homeserver found for''"

definition RESOLVE_ATTEMPTS :: nat where
  "RESOLVE_ATTEMPTS = 4"

definition EXCHANGE_ATTEMPTS :: nat where
  "EXCHANGE_ATTEMPTS = 3"

definition BUDGET :: duration where
  "BUDGET = from_secs 120"

definition RESOLVE_ATTEMPT_TIMEOUT :: duration where
  "RESOLVE_ATTEMPT_TIMEOUT = from_secs 25"

definition EXCHANGE_TIMEOUT :: duration where
  "EXCHANGE_TIMEOUT = from_secs 30"

text \<open>Public keys are their \<^verbatim>\<open>z32\<close> text.\<close>

definition exchange_qname :: "string \<Rightarrow> string option \<Rightarrow> string" where
  "exchange_qname user homeserver =
     (case homeserver of Some h \<Rightarrow> h | None \<Rightarrow> ''_pubky.'' @ user)"

definition retry_delay :: "nat \<Rightarrow> nat \<Rightarrow> duration \<Rightarrow> duration \<Rightarrow> duration option" where
  "retry_delay attempt attempts elapsed reserve =
     (if attempt \<ge> attempts then None
      else let delay = from_secs (2 ^ min (attempt - 1) 3) in
           if elapsed + delay + reserve \<le> BUDGET then Some delay else None)"

definition never_sent :: "sdk_error \<Rightarrow> bool" where
  "never_sent e = (case variant e of Request (ReqTransport t) \<Rightarrow> is_connect t | _ \<Rightarrow> False)"

datatype unresolved = NoRecord | Failed string

datatype resolve_error = NotFound | ResolveFailed std_error

record ('c, 't, 'w) exchange_env =
  x_now :: "'w \<Rightarrow> instant"
  x_sleep :: "duration \<Rightarrow> 'w \<Rightarrow> 'w"
  timeout_resolve ::
    "duration \<Rightarrow> ('w \<Rightarrow> (unresolved + unit) \<times> 'w) \<Rightarrow> 'w \<Rightarrow> (unresolved + unit) option \<times> 'w"
  timeout_spend ::
    "duration \<Rightarrow> ('w \<Rightarrow> (sdk_error + 'c) \<times> 'w) \<Rightarrow> 'w \<Rightarrow> (sdk_error + 'c) option \<times> 'w"
  try_from_z32 :: "string \<Rightarrow> string result"
  pkarr_resolve :: "string \<Rightarrow> 'w \<Rightarrow> (resolve_error + unit) \<times> 'w"
  resolve_https_endpoint :: "string \<Rightarrow> 'w \<Rightarrow> bool \<times> 'w"
  token_public_key :: "'t \<Rightarrow> string"
  from_auth_token :: "'t \<Rightarrow> string option \<Rightarrow> 'w \<Rightarrow> (sdk_error + 'c) \<times> 'w"

definition resolve_endpoint :: "('c, 't, 'w) exchange_env \<Rightarrow> string \<Rightarrow> 'w \<Rightarrow> (unresolved + unit) \<times> 'w" where
  "resolve_endpoint E qname w =
     (let key = trim_start_matches ''_pubky.'' qname in
      case try_from_z32 E key of
        Inl e \<Rightarrow> (Inl (Failed (''invalid key '' @ key @ '': '' @ e)), w)
      | Inr k \<Rightarrow>
          (case pkarr_resolve E k w of
             (Inl NotFound, w) \<Rightarrow> (Inl NoRecord, w)
           | (Inl (ResolveFailed e), w) \<Rightarrow> (Inl (Failed (full_error_chain e)), w)
           | (Inr _, w) \<Rightarrow>
               (case resolve_https_endpoint E qname w of
                  (found, w) \<Rightarrow>
                    (if found then Inr () else Inl (Failed (''no HTTPS endpoint resolved for '' @ qname)), w))))"

text \<open>\<^verbatim>\<open>{:?}\<close> of a \<^verbatim>\<open>Duration\<close> of whole seconds.\<close>

definition show_secs :: "duration \<Rightarrow> string" where
  "show_secs d = show_nat (as_secs d) @ ''s''"

definition unresolved_message :: "string \<Rightarrow> nat \<Rightarrow> nat \<Rightarrow> unresolved \<Rightarrow> string" where
  "unresolved_message qname attempt spent e =
     (case e of
        NoRecord \<Rightarrow>
          NO_RECORD @ '' '' @ qname @ '': pkarr has no record for it after '' @ show_nat attempt @
          '' attempts over '' @ show_nat spent @ ''s. Ring'' @ [CHR 0x27] @
          ''s approval was received but expires unused.''
      | Failed detail \<Rightarrow>
          UNRESOLVED @ '': pkarr found no endpoint for '' @ qname @ '' after '' @ show_nat attempt @
          '' attempts over '' @ show_nat spent @ ''s ('' @ detail @ ''). Ring'' @ [CHR 0x27] @
          ''s approval was received but expires unused; start a new sign-in and approve it again.'')"

lemma retry_delay_SomeD:
  "retry_delay attempt attempts t reserve = Some d \<Longrightarrow>
   attempt < attempts \<and> t + d + reserve \<le> BUDGET \<and> d = from_secs (2 ^ min (attempt - 1) 3)"
  by (auto simp: retry_delay_def Let_def split: if_splits)

function resolve_loop ::
  "('c, 't, 'w) exchange_env \<Rightarrow> string \<Rightarrow> instant \<Rightarrow> nat \<Rightarrow> 'w \<Rightarrow> unit result \<times> 'w" where
  "resolve_loop E qname start attempt w =
     (case timeout_resolve E RESOLVE_ATTEMPT_TIMEOUT (resolve_endpoint E qname) w of
        (Some (Inr _), w) \<Rightarrow> (Inr (), w)
      | (r, w) \<Rightarrow>
          (let err = (case r of
                        Some (Inl e) \<Rightarrow> e
                      | _ \<Rightarrow> Failed (''lookup took over '' @ show_secs RESOLVE_ATTEMPT_TIMEOUT));
               reserve = RESOLVE_ATTEMPT_TIMEOUT + EXCHANGE_TIMEOUT in
           case retry_delay attempt RESOLVE_ATTEMPTS (x_now E w - start) reserve of
             None \<Rightarrow> (Inl (unresolved_message qname attempt (as_secs (x_now E w - start)) err), w)
           | Some delay \<Rightarrow> resolve_loop E qname start (attempt + 1) (x_sleep E delay w)))"
  by pat_completeness auto
termination
  by (relation "measure (\<lambda>(_, _, _, attempt, _). RESOLVE_ATTEMPTS - attempt)")
    (auto dest!: retry_delay_SomeD)

definition resolve_with_retries ::
  "('c, 't, 'w) exchange_env \<Rightarrow> string \<Rightarrow> instant \<Rightarrow> 'w \<Rightarrow> unit result \<times> 'w" where
  "resolve_with_retries E qname start w = resolve_loop E qname start 1 w"

function spend_loop ::
  "('c, 't, 'w) exchange_env \<Rightarrow> 't \<Rightarrow> string option \<Rightarrow> instant \<Rightarrow> nat \<Rightarrow> 'w \<Rightarrow> 'c result \<times> 'w" where
  "spend_loop E token homeserver start attempt w =
     (case timeout_spend E EXCHANGE_TIMEOUT (from_auth_token E token homeserver) w of
        (Some (Inr credential), w) \<Rightarrow> (Inr credential, w)
      | (None, w) \<Rightarrow>
          (Inl (''Session exchange timed out after '' @ show_secs EXCHANGE_TIMEOUT @ ''; start a new sign-in''), w)
      | (Some (Inl e), w) \<Rightarrow>
          (case (if never_sent e
                 then retry_delay attempt EXCHANGE_ATTEMPTS (x_now E w - start) EXCHANGE_TIMEOUT
                 else None) of
             None \<Rightarrow> (Inl (full_error_chain e), w)
           | Some delay \<Rightarrow> spend_loop E token homeserver start (attempt + 1) (x_sleep E delay w)))"
  by pat_completeness auto
termination
  by (relation "measure (\<lambda>(_, _, _, _, attempt, _). EXCHANGE_ATTEMPTS - attempt)")
    (auto split: if_splits dest!: retry_delay_SomeD)

definition exchange ::
  "('c, 't, 'w) exchange_env \<Rightarrow> 't \<Rightarrow> string option \<Rightarrow> 'w \<Rightarrow> 'c result \<times> 'w" where
  "exchange E token homeserver w =
     (let start = x_now E w; qname = exchange_qname (token_public_key E token) homeserver in
      case resolve_with_retries E qname start w of
        (Inl msg, w) \<Rightarrow> (Inl msg, w)
      | (Inr _, w) \<Rightarrow> spend_loop E token homeserver start 1 w)"

declare resolve_loop.simps [simp del] spend_loop.simps [simp del]


subsection \<open>One round of a loop\<close>

text \<open>It answers, or it sleeps and goes round again.\<close>

lemma resolve_loop_cases:
  assumes "resolve_loop E qname start attempt w = (r, w')"
    and "timeout_resolve E RESOLVE_ATTEMPT_TIMEOUT (resolve_endpoint E qname) w = (a, w1)"
  obtains (Found) "w' = w1" "r = Inr ()" "a = Some (Inr ())"
  | (Fails) n t e where "w' = w1" "r = Inl (unresolved_message qname n t e)" "a \<noteq> Some (Inr ())"
  | (Again) d where "RESOLVE_ATTEMPTS - (attempt + 1) < RESOLVE_ATTEMPTS - attempt" "a \<noteq> Some (Inr ())"
    "x_now E w1 - start + d + (RESOLVE_ATTEMPT_TIMEOUT + EXCHANGE_TIMEOUT) \<le> BUDGET"
    "resolve_loop E qname start (attempt + 1) (x_sleep E d w1) = (r, w')"
  using assms
  by (subst (asm) resolve_loop.simps)
    (auto simp: Let_def diff_less_mono2 split: option.splits sum.splits dest!: retry_delay_SomeD)

lemma spend_loop_cases:
  assumes "spend_loop E token h start attempt w = (r, w')"
    and "timeout_spend E EXCHANGE_TIMEOUT (from_auth_token E token h) w = (a, w1)"
  obtains (Answer) "w' = w1" "\<forall>c. r = Inr c \<longleftrightarrow> a = Some (Inr c)"
  | (Again) d e where "attempt < EXCHANGE_ATTEMPTS" "x_now E w1 - start + d + EXCHANGE_TIMEOUT \<le> BUDGET"
    "spend_loop E token h start (attempt + 1) (x_sleep E d w1) = (r, w')" "a = Some (Inl e)" "never_sent e"
  using assms
  by (subst (asm) spend_loop.simps)
    (auto split: option.splits sum.splits if_splits dest!: retry_delay_SomeD)

subsection \<open>The budget\<close>

text \<open>
  \<^verbatim>\<open>tokio\<close> promises that a sleep lasts at least as long as asked and that a timeout fires some time after it is
  due; neither promises when. \<open>late\<close> measures it: by how much sleeps and timeouts have overrun so far. Any
  world has such a measure, because it is the time that passed less the time that was asked for.
\<close>

definition lateness :: "('c, 't, 'w) exchange_env \<Rightarrow> ('w \<Rightarrow> duration) \<Rightarrow> bool" where
  "lateness E late \<longleftrightarrow>
     (\<forall>d w. let w' = x_sleep E d w in
        x_now E w \<le> x_now E w' \<and> late w \<le> late w' \<and> x_now E w' + late w \<le> x_now E w + d + late w') \<and>
     (\<forall>d f w. let w' = snd (timeout_resolve E d f w) in
        x_now E w \<le> x_now E w' \<and> late w \<le> late w' \<and> x_now E w' + late w \<le> x_now E w + d + late w') \<and>
     (\<forall>d f w. let w' = snd (timeout_spend E d f w) in
        x_now E w \<le> x_now E w' \<and> late w \<le> late w' \<and> x_now E w' + late w \<le> x_now E w + d + late w')"

lemma lateness_waits:
  assumes "lateness E late"
  shows "x_now E w \<le> x_now E (x_sleep E d w)" "late w \<le> late (x_sleep E d w)"
    "x_now E (x_sleep E d w) + late w \<le> x_now E w + d + late (x_sleep E d w)"
    and "timeout_resolve E d f w = (a, w1) \<Longrightarrow>
      x_now E w \<le> x_now E w1 \<and> late w \<le> late w1 \<and> x_now E w1 + late w \<le> x_now E w + d + late w1"
    and "timeout_spend E d g w = (b, w1) \<Longrightarrow>
      x_now E w \<le> x_now E w1 \<and> late w \<le> late w1 \<and> x_now E w1 + late w \<le> x_now E w + d + late w1"
  using assms unfolding lateness_def Let_def by (metis snd_conv)+

lemma resolve_loop_time:
  assumes t: "lateness E late"
  shows "start \<le> x_now E w \<Longrightarrow> late0 \<le> late w \<Longrightarrow>
    x_now E w + (RESOLVE_ATTEMPT_TIMEOUT + EXCHANGE_TIMEOUT) + late0 \<le> start + BUDGET + late w \<Longrightarrow>
    resolve_loop E qname start attempt w = (r, w') \<Longrightarrow>
    start \<le> x_now E w' \<and> late0 \<le> late w' \<and> x_now E w' + EXCHANGE_TIMEOUT + late0 \<le> start + BUDGET + late w'"
proof (induction "RESOLVE_ATTEMPTS - attempt" arbitrary: attempt w rule: less_induct)
  case less
  obtain a w1 where a: "timeout_resolve E RESOLVE_ATTEMPT_TIMEOUT (resolve_endpoint E qname) w = (a, w1)"
    by fastforce
  note w1 = lateness_waits(4) [OF t a]
  from less.prems(4) a show ?case
  proof (cases rule: resolve_loop_cases)
    case (Again d)
    note w2 = lateness_waits(1-3) [OF t, where w = w1 and d = d]
    have "x_now E w1 + d + (RESOLVE_ATTEMPT_TIMEOUT + EXCHANGE_TIMEOUT) \<le> start + BUDGET"
      using Again(3) w1 less.prems(1) by linarith
    with w1 w2 less.prems(1,2) show ?thesis
      by (intro less.hyps [OF Again(1) _ _ _ Again(4)]) linarith+
  qed (use w1 less.prems in simp_all)
qed

lemma spend_loop_time:
  assumes t: "lateness E late"
  shows "start \<le> x_now E w \<Longrightarrow> late0 \<le> late w \<Longrightarrow> x_now E w + EXCHANGE_TIMEOUT + late0 \<le> start + BUDGET + late w \<Longrightarrow>
    spend_loop E token h start attempt w = (r, w') \<Longrightarrow> x_now E w' + late0 \<le> start + BUDGET + late w'"
proof (induction "EXCHANGE_ATTEMPTS - attempt" arbitrary: attempt w rule: less_induct)
  case less
  obtain a w1 where a: "timeout_spend E EXCHANGE_TIMEOUT (from_auth_token E token h) w = (a, w1)"
    by fastforce
  note w1 = lateness_waits(5) [OF t a]
  from less.prems(4) a show ?case
  proof (cases rule: spend_loop_cases)
    case Answer
    with w1 less.prems show ?thesis by simp
  next
    case (Again d e)
    note w2 = lateness_waits(1-3) [OF t, where w = w1 and d = d]
    have "x_now E w1 + d + EXCHANGE_TIMEOUT \<le> start + BUDGET"
      using Again(2) w1 less.prems(1) by linarith
    moreover have "EXCHANGE_ATTEMPTS - (attempt + 1) < EXCHANGE_ATTEMPTS - attempt" using Again(1) by simp
    ultimately show ?thesis
      using w1 w2 less.prems(1,2) by (intro less.hyps [OF _ _ _ _ Again(3)]) linarith+
  qed
qed

subsection \<open>When the token is spent\<close>

text \<open>
  A log of what was answered, as a world might keep it: the lookups of an endpoint with their names, the
  exchanges with their token, homeserver and outcome, and the exchanges that were cut off. A timeout that
  does not fire gives what the future it wraps gives.
\<close>

datatype ('c, 't) exchange_event = Looked string bool | Spent 't "string option" "sdk_error + 'c" | CutOff

definition logs_exchange :: "('c, 't, 'w) exchange_env \<Rightarrow> ('w \<Rightarrow> ('c, 't) exchange_event list) \<Rightarrow> bool" where
  "logs_exchange E log \<longleftrightarrow>
     (\<forall>d w. log (x_sleep E d w) = log w) \<and> (\<forall>k w. log (snd (pkarr_resolve E k w)) = log w) \<and>
     (\<forall>q w. log (snd (resolve_https_endpoint E q w)) = log w @ [Looked q (fst (resolve_https_endpoint E q w))]) \<and>
     (\<forall>t h w. log (snd (from_auth_token E t h w)) = log w @ [Spent t h (fst (from_auth_token E t h w))]) \<and>
     (\<forall>d q w. case timeout_resolve E d (resolve_endpoint E q) w of
        (Some r, w') \<Rightarrow> (\<exists>v v'. resolve_endpoint E q v = (r, v') \<and> log v = log w \<and> log w' = log v')
      | (None, w') \<Rightarrow> log w' = log w) \<and>
     (\<forall>d t h w. case timeout_spend E d (from_auth_token E t h) w of
        (Some r, w') \<Rightarrow> (\<exists>v v'. from_auth_token E t h v = (r, v') \<and> log v = log w \<and> log w' = log v')
      | (None, w') \<Rightarrow> log w' = log w @ [CutOff])"

text \<open>The one failure that cannot have reached the homeserver is a refused connection.\<close>

definition refused_spend :: "'t \<Rightarrow> string option \<Rightarrow> ('c, 't) exchange_event \<Rightarrow> bool" where
  "refused_spend token h x \<longleftrightarrow>
     (\<exists>e t. x = Spent token h (Inl e) \<and> variant e = Request (ReqTransport t) \<and> is_connect t)"

lemma never_sent_refused: "never_sent e \<Longrightarrow> refused_spend token h (Spent token h (Inl e))"
  by (auto simp: never_sent_def refused_spend_def split: pubky_error.splits request_error.splits)

lemma resolve_endpoint_log:
  assumes c: "logs_exchange E log" and r: "resolve_endpoint E q w = (r, w')"
  shows "log w' = log w @ (if r = Inr () then [Looked q True] else []) \<or>
    r \<noteq> Inr () \<and> log w' = log w @ [Looked q False]"
proof -
  have p: "log v' = log v" if "pkarr_resolve E k v = (a, v')" for k v a v'
    using c that unfolding logs_exchange_def by (metis snd_conv)
  have e: "log v' = log v @ [Looked q found]" if "resolve_https_endpoint E q v = (found, v')" for v found v'
    using c that unfolding logs_exchange_def by (metis fst_conv snd_conv)
  show ?thesis
    using r by (auto simp: resolve_endpoint_def Let_def dest!: p e
        split: sum.splits prod.splits resolve_error.splits if_splits)
qed

lemma logs_exchange_timeouts:
  assumes "logs_exchange E log"
  shows "timeout_resolve E d (resolve_endpoint E q) w = (None, w') \<Longrightarrow> log w' = log w"
    and "timeout_resolve E d (resolve_endpoint E q) w = (Some r, w') \<Longrightarrow>
      \<exists>v v'. resolve_endpoint E q v = (r, v') \<and> log v = log w \<and> log w' = log v'"
    and "timeout_spend E d (from_auth_token E t h) w = (None, w') \<Longrightarrow> log w' = log w @ [CutOff]"
    and "timeout_spend E d (from_auth_token E t h) w = (Some a, w') \<Longrightarrow>
      \<exists>v v'. from_auth_token E t h v = (a, v') \<and> log v = log w \<and> log w' = log v'"
proof -
  have r: "\<forall>d q w. case timeout_resolve E d (resolve_endpoint E q) w of
        (Some r, w') \<Rightarrow> (\<exists>v v'. resolve_endpoint E q v = (r, v') \<and> log v = log w \<and> log w' = log v')
      | (None, w') \<Rightarrow> log w' = log w"
    using assms unfolding logs_exchange_def by (elim conjE)
  have s: "\<forall>d t h w. case timeout_spend E d (from_auth_token E t h) w of
        (Some r, w') \<Rightarrow> (\<exists>v v'. from_auth_token E t h v = (r, v') \<and> log v = log w \<and> log w' = log v')
      | (None, w') \<Rightarrow> log w' = log w @ [CutOff]"
    using assms unfolding logs_exchange_def by (elim conjE)
  show "timeout_resolve E d (resolve_endpoint E q) w = (None, w') \<Longrightarrow> log w' = log w"
    and "timeout_resolve E d (resolve_endpoint E q) w = (Some r, w') \<Longrightarrow>
      \<exists>v v'. resolve_endpoint E q v = (r, v') \<and> log v = log w \<and> log w' = log v'"
    using r [THEN spec [of _ d], THEN spec [of _ q], THEN spec [of _ w]] by simp_all
  show "timeout_spend E d (from_auth_token E t h) w = (None, w') \<Longrightarrow> log w' = log w @ [CutOff]"
    and "timeout_spend E d (from_auth_token E t h) w = (Some a, w') \<Longrightarrow>
      \<exists>v v'. from_auth_token E t h v = (a, v') \<and> log v = log w \<and> log w' = log v'"
    using s [THEN spec [of _ d], THEN spec [of _ t], THEN spec [of _ h], THEN spec [of _ w]] by simp_all
qed

lemma resolve_attempt_log:
  assumes c: "logs_exchange E log" and a: "timeout_resolve E d (resolve_endpoint E q) w = (a, w')"
  shows "log w' = log w @ (if a = Some (Inr ()) then [Looked q True] else []) \<or>
    a \<noteq> Some (Inr ()) \<and> log w' = log w @ [Looked q False]"
proof (cases a)
  case None
  then show ?thesis using logs_exchange_timeouts(1) [OF c] a by simp
next
  case (Some r)
  then obtain v v' where v: "resolve_endpoint E q v = (r, v')" "log v = log w" "log w' = log v'"
    using logs_exchange_timeouts(2) [OF c] a by blast
  show ?thesis using resolve_endpoint_log [OF c v(1)] v(2,3) Some by simp
qed

lemma spend_attempt_log:
  assumes c: "logs_exchange E log" and a: "timeout_spend E d (from_auth_token E t h) w = (a, w')"
  shows "log w' = log w @ [case a of None \<Rightarrow> CutOff | Some r \<Rightarrow> Spent t h r]"
proof (cases a)
  case None
  then show ?thesis using logs_exchange_timeouts(3) [OF c] a by simp
next
  case (Some r)
  then obtain v v' where v: "from_auth_token E t h v = (r, v')" "log v = log w" "log w' = log v'"
    using logs_exchange_timeouts(4) [OF c] a by blast
  have "log (snd (from_auth_token E t h v)) = log v @ [Spent t h (fst (from_auth_token E t h v))]"
    using c unfolding logs_exchange_def by blast
  then show ?thesis using v Some by simp
qed

text \<open>The lookups of a run: all but possibly the last failed, and the last succeeded exactly if the run did.\<close>

definition lookups :: "string \<Rightarrow> bool \<Rightarrow> ('c, 't) exchange_event list \<Rightarrow> bool" where
  "lookups q found looks \<longleftrightarrow>
     (\<exists>fails. set fails \<subseteq> {Looked q False} \<and> looks = fails @ (if found then [Looked q True] else []))"

lemma resolve_loop_log:
  assumes c: "logs_exchange E log"
  shows "resolve_loop E q start attempt w = (r, w') \<Longrightarrow>
    (\<exists>looks. log w' = log w @ looks \<and> lookups q (r = Inr ()) looks) \<and>
    (\<forall>msg. r = Inl msg \<longrightarrow> (\<exists>n t e. msg = unresolved_message q n t e))"
proof (induction "RESOLVE_ATTEMPTS - attempt" arbitrary: attempt w rule: less_induct)
  case less
  obtain a w1 where a: "timeout_resolve E RESOLVE_ATTEMPT_TIMEOUT (resolve_endpoint E q) w = (a, w1)"
    by fastforce
  note w1 = resolve_attempt_log [OF c a]
  from less.prems a show ?case
  proof (cases rule: resolve_loop_cases)
    case Found
    then show ?thesis using w1 by (auto simp: lookups_def intro: exI [of _ "[]"])
  next
    case (Fails n t e)
    then show ?thesis using w1 by (auto simp: lookups_def)
  next
    case (Again d)
    have "log (x_sleep E d w1) = log w1" using c by (simp add: logs_exchange_def)
    moreover obtain first where first: "log w1 = log w @ first" "set first \<subseteq> {Looked q False}"
      using w1 Again(2) by fastforce
    ultimately obtain looks where l: "log w' = (log w @ first) @ looks" "lookups q (r = Inr ()) looks"
      and m: "\<forall>msg. r = Inl msg \<longrightarrow> (\<exists>n t e. msg = unresolved_message q n t e)"
      using less.hyps [OF Again(1,4)] by metis
    from l(2) obtain fails where "set fails \<subseteq> {Looked q False}"
      "looks = fails @ (if r = Inr () then [Looked q True] else [])" by (auto simp: lookups_def)
    then have "lookups q (r = Inr ()) (first @ looks)"
      using first(2) unfolding lookups_def by (intro exI [of _ "first @ fails"]) auto
    with l m show ?thesis by auto
  qed
qed

lemma spend_loop_log:
  assumes c: "logs_exchange E log"
  shows "spend_loop E token h start attempt w = (r, w') \<Longrightarrow> \<exists>refusals final. log w' = log w @ refusals @ [final] \<and>
    length refusals \<le> EXCHANGE_ATTEMPTS - attempt \<and> list_all (refused_spend token h) refusals \<and>
    (final = CutOff \<and> isl r \<or> (\<exists>a. final = Spent token h a \<and> (\<forall>c. r = Inr c \<longleftrightarrow> a = Inr c)))"
proof (induction "EXCHANGE_ATTEMPTS - attempt" arbitrary: attempt w rule: less_induct)
  case less
  obtain a w1 where a: "timeout_spend E EXCHANGE_TIMEOUT (from_auth_token E token h) w = (a, w1)"
    by fastforce
  note w1 = spend_attempt_log [OF c a]
  from less.prems a show ?case
  proof (cases rule: spend_loop_cases)
    case Answer
    then show ?thesis
      using w1 by (intro exI [of _ "[]"]) (cases a; cases r; auto)
  next
    case (Again d e)
    have "log (x_sleep E d w1) = log w @ [Spent token h (Inl e)]"
      using c w1 Again(4) by (simp add: logs_exchange_def)
    moreover have "EXCHANGE_ATTEMPTS - (attempt + 1) < EXCHANGE_ATTEMPTS - attempt" using Again(1) by simp
    from less.hyps [OF this Again(3)] obtain refusals final where
      "log w' = log (x_sleep E d w1) @ refusals @ [final]" "length refusals \<le> EXCHANGE_ATTEMPTS - (attempt + 1)"
      "list_all (refused_spend token h) refusals"
      "final = CutOff \<and> isl r \<or> (\<exists>a. final = Spent token h a \<and> (\<forall>c. r = Inr c \<longleftrightarrow> a = Inr c))" by blast
    ultimately show ?thesis
      using Again(1) never_sent_refused [OF Again(5)]
      by (intro exI [of _ "Spent token h (Inl e) # refusals"] exI [of _ final]) auto
  qed
qed


subsection \<open>Properties\<close>

text \<open>An example in which lookups succeed at once and every exchange fails to connect.\<close>

definition unreachable_homeserver :: "(unit, unit, nat \<times> (unit, unit) exchange_event list) exchange_env" where
  "unreachable_homeserver =
     \<lparr>x_now = fst, x_sleep = \<lambda>d w. (fst w + d, snd w),
      timeout_resolve = \<lambda>d f w. (case f w of (r, v) \<Rightarrow> (Some r, (fst w, snd v))),
      timeout_spend = \<lambda>d f w. (case f w of (r, v) \<Rightarrow> (Some r, (fst w, snd v))),
      try_from_z32 = Inr, pkarr_resolve = \<lambda>_ w. (Inr (), w),
      resolve_https_endpoint = \<lambda>q w. (True, (fst w, snd w @ [Looked q True])),
      token_public_key = \<lambda>_. ''user'',
      from_auth_token = \<lambda>t h w.
        (let r = Inl \<lparr>display = ''refused'', sources = [], variant = Request (ReqTransport
               \<lparr>display = ''connect'', sources = [], err_url = None, is_connect = True\<rparr>)\<rparr> in
         (r, (fst w, snd w @ [Spent t h r])))\<rparr>"

lemma unreachable_homeserver_logs: "logs_exchange unreachable_homeserver snd"
proof -
  have "log = snd \<Longrightarrow> resolve_endpoint unreachable_homeserver q v =
      (Inr (), (fst v, snd v @ [Looked q True]))" for log :: "nat \<times> (unit, unit) exchange_event list \<Rightarrow> _" and q v
    by (simp add: resolve_endpoint_def unreachable_homeserver_def Let_def)
  then show ?thesis
    by (simp add: logs_exchange_def) (auto simp: unreachable_homeserver_def Let_def)
qed

text \<open>
  C19 (bounds). The exchange fits its budget: from the arrival of the token to the answer, every lookup, sleep,
  retry and exchange included, at most 120 seconds pass, and the time by which the runtime's sleeps and
  timeouts came late meanwhile, whatever the lookups and the homeserver do. With timers that are on time
  it is the 120 seconds.
\<close>

theorem exchange_fits_budget:
  assumes "lateness E late" and "exchange E token homeserver w = (r, w')"
  shows "x_now E w' \<le> x_now E w + from_secs 120 + (late w' - late w)"
proof -
  let ?q = "exchange_qname (token_public_key E token) homeserver"
  obtain a w1 where a: "resolve_loop E ?q (x_now E w) 1 w = (a, w1)" by fastforce
  have w1: "x_now E w \<le> x_now E w1 \<and> late w \<le> late w1 \<and>
      x_now E w1 + EXCHANGE_TIMEOUT + late w \<le> x_now E w + BUDGET + late w1"
    using resolve_loop_time [OF assms(1) _ _ _ a, of "late w"]
    by (simp add: RESOLVE_ATTEMPT_TIMEOUT_def EXCHANGE_TIMEOUT_def BUDGET_def from_secs_def)
  have "x_now E w' + late w \<le> x_now E w + BUDGET + late w'"
    using assms(2) a w1 spend_loop_time [OF assms(1), of "x_now E w" w1 "late w" token homeserver 1 r w']
    by (auto simp: exchange_def resolve_with_retries_def Let_def split: sum.splits)
  then show ?thesis by (simp add: BUDGET_def)
qed

theorem exchange_fits_budget_witness:
  "x_now unreachable_homeserver (snd (exchange unreachable_homeserver () None (0, []))) \<le> from_secs 120"
  using exchange_fits_budget [of unreachable_homeserver "\<lambda>_. 0" "()" None "(0, [])"
      "fst (exchange unreachable_homeserver () None (0, []))" "snd (exchange unreachable_homeserver () None (0, []))"]
  by (simp add: lateness_def unreachable_homeserver_def split: prod.splits)

text \<open>
  C18 (safety). The token is spent only when the homeserver is known and never blindly twice. First come
  lookups of the name of the exchange, none of which but the last can have found an endpoint. If none did,
  the answer is one of the two messages and the token was not sent. Otherwise it was sent, to the
  homeserver asked for, at most three times; each exchange but the last failed to connect, so that it
  cannot have used up the token, and the answer is a credential exactly when the last one gave it.
\<close>

theorem token_spent_only_when_safe:
  assumes "logs_exchange E log" and "exchange E token homeserver w = (r, w')"
    and "q = (case homeserver of Some h \<Rightarrow> h | None \<Rightarrow> ''_pubky.'' @ token_public_key E token)"
  shows "\<exists>fails. set fails \<subseteq> {Looked q False} \<and>
    ((\<exists>n t e. r = Inl (unresolved_message q n t e)) \<and> log w' = log w @ fails \<or>
     (\<exists>refusals final. log w' = log w @ fails @ [Looked q True] @ refusals @ [final] \<and> length refusals \<le> 2 \<and>
        list_all (refused_spend token homeserver) refusals \<and>
        (final = CutOff \<and> isl r \<or>
         (\<exists>a. final = Spent token homeserver a \<and> (\<forall>c. r = Inr c \<longleftrightarrow> a = Inr c)))))"
proof -
  have q: "exchange_qname (token_public_key E token) homeserver = q" by (simp add: exchange_qname_def assms(3))
  obtain a w1 where rl: "resolve_loop E q (x_now E w) 1 w = (a, w1)" by fastforce
  obtain fails where f: "set fails \<subseteq> {Looked q False}"
    "log w1 = log w @ fails @ (if a = Inr () then [Looked q True] else [])"
    and m: "\<forall>msg. a = Inl msg \<longrightarrow> (\<exists>n t e. msg = unresolved_message q n t e)"
    using resolve_loop_log [OF assms(1) rl] by (auto simp: lookups_def)
  show ?thesis
  proof (cases a)
    case (Inl msg)
    then show ?thesis
      using assms(2) rl f m by (auto simp: exchange_def resolve_with_retries_def Let_def q)
  next
    case (Inr u)
    then have "spend_loop E token homeserver (x_now E w) 1 w1 = (r, w')"
      using assms(2) rl by (simp add: exchange_def resolve_with_retries_def Let_def q)
    from spend_loop_log [OF assms(1) this] show ?thesis
      using f Inr by (intro exI [of _ fails]) (auto simp: EXCHANGE_ATTEMPTS_def)
  qed
qed

theorem token_spent_only_when_safe_witness:
  "let q = ''_pubky.user''; (r, w') = exchange unreachable_homeserver () None (0, []) in
   \<exists>fails. set fails \<subseteq> {Looked q False} \<and>
    ((\<exists>n t e. r = Inl (unresolved_message q n t e)) \<and> snd w' = fails \<or>
     (\<exists>refusals final. snd w' = fails @ [Looked q True] @ refusals @ [final] \<and> length refusals \<le> 2 \<and>
        list_all (refused_spend () None) refusals \<and>
        (final = CutOff \<and> isl r \<or> (\<exists>a. final = Spent () None a \<and> (\<forall>c. r = Inr c \<longleftrightarrow> a = Inr c)))))"
proof -
  have q: "''_pubky.user'' = (case None of Some h \<Rightarrow> h | None \<Rightarrow> ''_pubky.'' @ token_public_key unreachable_homeserver ())"
    by (simp add: unreachable_homeserver_def)
  show ?thesis
    using token_spent_only_when_safe
      [OF unreachable_homeserver_logs _ q, of "(0, [])" "fst (exchange unreachable_homeserver () None (0, []))"
        "snd (exchange unreachable_homeserver () None (0, []))"]
    by (simp add: case_prod_beta Let_def)
qed

text \<open>
  A caller can tell the two failures of a lookup apart by their first words: a key without
  a record opens with one marker, a lookup that failed with the other, and no message opens with both.
\<close>

theorem unresolved_messages_distinguishable:
  "(prefix NO_RECORD (unresolved_message q n t e) \<longleftrightarrow> e = NoRecord) \<and>
   (prefix UNRESOLVED (unresolved_message q n t e) \<longleftrightarrow> e \<noteq> NoRecord)"
  by (cases e) (simp_all add: unresolved_message_def NO_RECORD_def UNRESOLVED_def)

end
