(* ===== verification/Lru_Cache.thy ===== *)
theory Lru_Cache
  imports Prelude "HOL-Library.Multiset"
begin

section \<open>The LRU of sessions\<close>

text \<open>
  Models \<^verbatim>\<open>Entry\<close> and \<^verbatim>\<open>Lru\<close> of \<^verbatim>\<open>src/session_cache.rs\<close>, generic in the session type as the source
  is, and proves that they implement a bounded list of sessions in order of use.

  \<^verbatim>\<open>usize\<close> capacities are \<^typ>\<open>nat\<close> (they are compared, and decremented from at least one); the
  \<^verbatim>\<open>u64\<close> use counter is a 64-bit word and wraps as in a release build, so the facts that order
  entries by it assume that the next tick does not wrap (\<open>clock c + 1 \<noteq> 0\<close>).
\<close>

subsection \<open>Operations\<close>

record 's entry =
  entry_value :: 's
  last_used :: u64
  minted :: u64

record 's lru =
  capacity :: nat
  clock :: u64
  entries :: "'s entry hmap"

definition lru_new :: "nat \<Rightarrow> 's lru" where
  "lru_new cap = \<lparr>capacity = max cap 1, clock = 0, entries = []\<rparr>"

definition tick :: "'s lru \<Rightarrow> u64 \<times> 's lru" where
  "tick c = (let c' = c\<lparr>clock := clock c + 1\<rparr> in (clock c', c'))"

definition lru_get :: "'s lru \<Rightarrow> string \<Rightarrow> ('s \<times> u64) option \<times> 's lru" where
  "lru_get c secret =
     (let (now, c) = tick c in
      case hm_get (entries c) secret of
        None \<Rightarrow> (None, c)
      | Some e \<Rightarrow> (Some (entry_value e, minted e),
                   c\<lparr>entries := hm_insert secret (e\<lparr>last_used := now\<rparr>) (entries c)\<rparr>))"

definition minted_after :: "'s lru \<Rightarrow> string \<Rightarrow> u64 \<Rightarrow> 's option \<times> 's lru" where
  "minted_after c secret stale =
     (case lru_get c secret of
        (None, c) \<Rightarrow> (None, c)
      | (Some (v, stamp), c) \<Rightarrow> (if stamp > stale then Some v else None, c))"

text \<open>\<^verbatim>\<open>Iterator::min_by_key\<close>: the first of the smallest, in iteration order.\<close>

fun oldest :: "'s entry hmap \<Rightarrow> (string \<times> 's entry) option" where
  "oldest [] = None"
| "oldest (x # xs) =
     (case oldest xs of
        None \<Rightarrow> Some x
      | Some y \<Rightarrow> if last_used (snd x) \<le> last_used (snd y) then Some x else Some y)"

lemma oldest_None [simp]: "oldest m = None \<longleftrightarrow> m = []"
  by (cases m) (auto split: option.splits)

lemma oldest_in: "oldest m = Some x \<Longrightarrow> x \<in> set m"
  by (induction m) (auto split: option.splits if_splits)

lemma oldest_least: "oldest m = Some x \<Longrightarrow> y \<in> set m \<Longrightarrow> last_used (snd x) \<le> last_used (snd y)"
proof (induction m arbitrary: x)
  case Nil
  then show ?case by simp
next
  case (Cons z m)
  then show ?case by (cases "oldest m") (force split: if_splits)+
qed

lemma length_remove_less: "(k, v) \<in> set m \<Longrightarrow> length (hm_remove k m) < length m"
  by (auto simp: hm_remove_filter intro!: length_filter_less)

function trim_entries :: "nat \<Rightarrow> 's entry hmap \<Rightarrow> 's entry hmap" where
  "trim_entries len m =
     (if length m > len
      then (case oldest m of
              None \<Rightarrow> m
            | Some (secret, _) \<Rightarrow> trim_entries len (hm_remove secret m))
      else m)"
  by pat_completeness auto
termination
  by (relation "measure (\<lambda>(len, m). length m)")
    (auto dest!: oldest_in length_remove_less)

declare trim_entries.simps [simp del]

definition trim_to :: "'s lru \<Rightarrow> nat \<Rightarrow> 's lru" where
  "trim_to c len = c\<lparr>entries := trim_entries len (entries c)\<rparr>"

definition lru_insert :: "'s lru \<Rightarrow> string \<Rightarrow> 's \<Rightarrow> 's lru" where
  "lru_insert c secret v =
     (let c = (if hm_contains (entries c) secret then c else trim_to c (capacity c - 1));
          (now, c) = tick c
      in c\<lparr>entries := hm_insert secret
              \<lparr>entry_value = v, last_used = now, minted = now\<rparr> (entries c)\<rparr>)"

definition lru_set_capacity :: "'s lru \<Rightarrow> nat \<Rightarrow> 's lru" where
  "lru_set_capacity c cap =
     (let c = c\<lparr>capacity := max cap 1\<rparr> in trim_to c (capacity c))"

text \<open>\<^verbatim>\<open>self.lru().entries.remove(secret)\<close>, as \<^verbatim>\<open>SessionStore::forget\<close> does it.\<close>

definition lru_forget :: "'s lru \<Rightarrow> string \<Rightarrow> 's lru" where
  "lru_forget c secret = c\<lparr>entries := hm_remove secret (entries c)\<rparr>"

definition lru_clear :: "'s lru \<Rightarrow> 's lru" where
  "lru_clear c = c\<lparr>entries := []\<rparr>"

lemmas lru_defs = lru_get_def minted_after_def tick_def trim_to_def lru_insert_def
  lru_set_capacity_def lru_forget_def lru_clear_def Let_def

subsection \<open>The invariant\<close>

abbreviation used :: "string \<times> 's entry \<Rightarrow> u64" where
  "used x \<equiv> last_used (snd x)"

text \<open>
  Keys and use stamps are pairwise distinct, nothing is stamped later than the clock, nothing was
  used before it was minted, and the capacity is positive and respected.
\<close>

definition lru_ok :: "'s lru \<Rightarrow> bool" where
  "lru_ok c \<longleftrightarrow> hm_ok (entries c) \<and> distinct (map used (entries c)) \<and>
     1 \<le> capacity c \<and> length (entries c) \<le> capacity c \<and>
     (\<forall>x\<in>set (entries c). minted (snd x) \<le> used x \<and> used x \<le> clock c)"

abbreviation no_wrap :: "'s lru \<Rightarrow> bool" where
  "no_wrap c \<equiv> clock c + 1 \<noteq> 0"

lemma word_succ_gt:
  fixes x y :: "'a::len word"
  assumes "y + 1 \<noteq> 0" and "x \<le> y"
  shows "x < y + 1"
proof -
  have "unat (1 + y) = Suc (unat y)"
    using assms(1) by (intro unatSuc) (simp add: add.commute)
  with assms(2) show ?thesis
    by (simp add: word_less_nat_alt word_le_nat_alt add.commute)
qed

text \<open>What an update of a map with distinct keys does to its elements.\<close>

lemma set_hm_insert:
  "hm_ok m \<Longrightarrow> set (hm_insert k v m) = insert (k, v) {x \<in> set m. fst x \<noteq> k}"
  by (induction m) (force simp: hm_insert_def)+

lemma mset_hm_insert:
  "hm_ok m \<Longrightarrow> mset (hm_insert k v m) = add_mset (k, v) (mset (hm_remove k m))"
  by (induction m) (auto simp: hm_insert_def hm_remove_def)

lemma set_hm_remove: "set (hm_remove k m) = {x \<in> set m. fst x \<noteq> k}"
  by (auto simp: hm_remove_filter)

lemma trim_entries_subset: "\<exists>P. trim_entries len m = filter P m"
proof (induction len m rule: trim_entries.induct)
  case (1 len m)
  show ?case
  proof (cases "length m > len \<and> m \<noteq> []")
    case True
    then obtain k v where o: "oldest m = Some (k, v)" by (cases "oldest m") auto
    obtain P where P: "trim_entries len (hm_remove k m) = filter P (hm_remove k m)"
      using "1.IH" True o by blast
    have "trim_entries len m = filter (\<lambda>x. fst x \<noteq> k \<and> P x) m"
      using True o P by (simp add: trim_entries.simps [of len m] hm_remove_filter)
    then show ?thesis by blast
  next
    case False
    then have "trim_entries len m = filter (\<lambda>_. True) m"
      by (auto simp: trim_entries.simps [of len m])
    then show ?thesis by blast
  qed
qed

lemma length_trim_entries: "length (trim_entries len m) \<le> len"
proof (induction len m rule: trim_entries.induct)
  case (1 len m)
  show ?case
  proof (cases "oldest m")
    case None
    then show ?thesis by (simp add: trim_entries.simps)
  next
    case (Some x)
    with "1.IH" show ?thesis by (cases x) (auto simp: trim_entries.simps [of len m])
  qed
qed

lemma trim_entries_id: "length m \<le> len \<Longrightarrow> trim_entries len m = m"
  by (simp add: trim_entries.simps)

lemma distinct_used_filter: "distinct (map used m) \<Longrightarrow> distinct (map used (filter P m))"
  by (rule distinct_map_filter)

lemma trim_entries_ok:
  assumes "hm_ok m" and "distinct (map used m)"
  shows "hm_ok (trim_entries len m)" and "distinct (map used (trim_entries len m))"
    and "set (trim_entries len m) \<subseteq> set m"
  using assms trim_entries_subset [of len m] by (auto intro: distinct_used_filter)

lemma distinct_used_insert:
  assumes "hm_ok m" and "distinct (map used m)" and "\<forall>x\<in>set m. used x < last_used e"
  shows "distinct (map used (hm_insert k e m))"
  using assms
proof (induction m)
  case Nil
  then show ?case by (simp add: hm_insert_def)
next
  case (Cons x m)
  have "set (AList.update k e m) = insert (k, e) {x \<in> set m. fst x \<noteq> k}"
    using Cons.prems(1) set_hm_insert [of m k e] by (simp add: hm_insert_def)
  with Cons show ?case
    by (cases x) (fastforce simp: hm_insert_def image_iff)
qed

lemma lru_new_ok: "lru_ok (lru_new cap)"
  by (simp add: lru_ok_def lru_new_def)

lemma trim_to_ok: "lru_ok c \<Longrightarrow> lru_ok (trim_to c len)"
  using trim_entries_ok [of "entries c" len] length_trim_entries [of len "entries c"]
    trim_entries_subset [of len "entries c"]
  by (auto simp: lru_ok_def trim_to_def)
    (metis dual_order.trans length_filter_le)+

lemma tick_entries [simp]: "entries (snd (tick c)) = entries c" "capacity (snd (tick c)) = capacity c"
  by (simp_all add: tick_def Let_def)

lemma lru_put_ok:
  assumes ok: "lru_ok c" and nw: "no_wrap c" and le: "minted e \<le> clock c + 1"
    and room: "hm_contains (entries c) k \<or> length (entries c) < capacity c"
  shows "lru_ok (c\<lparr>clock := clock c + 1,
                   entries := hm_insert k (e\<lparr>last_used := clock c + 1\<rparr>) (entries c)\<rparr>)"
proof -
  have lt: "\<forall>x\<in>set (entries c). used x < clock c + 1"
    using ok nw by (auto simp: lru_ok_def intro: word_succ_gt)
  have "distinct (map used (hm_insert k (e\<lparr>last_used := clock c + 1\<rparr>) (entries c)))"
    using ok lt by (intro distinct_used_insert) (auto simp: lru_ok_def)
  then show ?thesis
    using ok le lt room by (auto simp: lru_ok_def set_hm_insert length_hm_insert less_imp_le)
qed

lemma lru_get_ok:
  assumes "lru_ok c" and "no_wrap c"
  shows "lru_ok (snd (lru_get c k))"
proof (cases "hm_get (entries c) k")
  case None
  then show ?thesis
    using assms word_succ_gt [OF assms(2)] by (auto simp: lru_ok_def lru_defs less_imp_le)
next
  case (Some e)
  then have "minted e \<le> clock c + 1"
    using assms word_succ_gt [OF assms(2)]
    by (fastforce simp: lru_ok_def dest!: hm_get_in_set intro: less_imp_le order.trans)
  then show ?thesis
    using lru_put_ok [OF assms, of e k] Some by (simp add: lru_defs hm_contains_def)
qed

lemma lru_insert_ok:
  assumes "lru_ok c" and "no_wrap c"
  shows "lru_ok (lru_insert c k v)"
proof -
  let ?c = "if hm_contains (entries c) k then c else trim_to c (capacity c - 1)"
  have "lru_ok ?c" and "no_wrap ?c" and "clock ?c = clock c" and "capacity ?c = capacity c"
    using assms trim_to_ok by (auto simp: trim_to_def)
  moreover have "hm_contains (entries ?c) k \<or> length (entries ?c) < capacity ?c"
    using assms(1) length_trim_entries [of "capacity c - 1" "entries c"]
    by (auto simp: trim_to_def lru_ok_def)
  ultimately show ?thesis
    using lru_put_ok [of ?c "\<lparr>entry_value = v, last_used = 0, minted = clock c + 1\<rparr>" k]
    by (simp add: lru_insert_def tick_def Let_def)
qed

lemma lru_set_capacity_ok: "lru_ok c \<Longrightarrow> lru_ok (lru_set_capacity c cap)"
  using trim_entries_ok [of "entries c" "max cap 1"] length_trim_entries [of "max cap 1" "entries c"]
  by (auto simp: lru_ok_def lru_set_capacity_def trim_to_def Let_def)

lemma lru_forget_ok: "lru_ok c \<Longrightarrow> lru_ok (lru_forget c k)"
  using length_filter_le [of "\<lambda>x. fst x \<noteq> k" "entries c"] distinct_used_filter [of "entries c"]
  by (auto simp: lru_ok_def lru_forget_def hm_remove_filter simp del: length_filter_le)

lemma lru_clear_ok: "lru_ok c \<Longrightarrow> lru_ok (lru_clear c)"
  by (simp add: lru_ok_def lru_clear_def)

lemmas lru_ok_intros = lru_new_ok lru_get_ok lru_insert_ok lru_set_capacity_ok lru_forget_ok
  lru_clear_ok

subsection \<open>Refinement: a bounded list in order of use\<close>

text \<open>
  The abstract cache is the list of (secret, session, mint stamp), the most recently used first.
  A hit moves its entry to the front, an insertion puts its entry in front and drops what no longer
  fits at the far end, a forget deletes, a resize cuts the far end off.
\<close>

definition recency :: "'s lru \<Rightarrow> (string \<times> 's \<times> u64) list" where
  "recency c = map (\<lambda>(k, e). (k, entry_value e, minted e)) (rev (sort_key used (entries c)))"

definition spec_touch :: "string \<Rightarrow> (string \<times> 'a) list \<Rightarrow> (string \<times> 'a) list" where
  "spec_touch k xs =
     (case map_of xs k of None \<Rightarrow> xs | Some a \<Rightarrow> (k, a) # filter (\<lambda>x. fst x \<noteq> k) xs)"

definition spec_insert :: "nat \<Rightarrow> string \<Rightarrow> 'a \<Rightarrow> (string \<times> 'a) list \<Rightarrow> (string \<times> 'a) list" where
  "spec_insert cap k a xs = take cap ((k, a) # filter (\<lambda>x. fst x \<noteq> k) xs)"

lemma sort_key_remove: "sort_key used (hm_remove k m) = filter (\<lambda>x. fst x \<noteq> k) (sort_key used m)"
  by (simp add: hm_remove_filter filter_sort)

lemma sort_key_insert:
  assumes "hm_ok m" and "distinct (map used m)" and "\<forall>x\<in>set m. used x < last_used e"
  shows "sort_key used (hm_insert k e m) = filter (\<lambda>x. fst x \<noteq> k) (sort_key used m) @ [(k, e)]"
proof (rule sort_key_inj_key_eq)
  show "mset (hm_insert k e m) = mset (filter (\<lambda>x. fst x \<noteq> k) (sort_key used m) @ [(k, e)])"
    using assms(1) by (simp add: mset_hm_insert hm_remove_filter)
  show "inj_on used (set (hm_insert k e m))"
    using distinct_used_insert [OF assms] by (simp add: distinct_map)
  show "sorted (map used (filter (\<lambda>x. fst x \<noteq> k) (sort_key used m) @ [(k, e)]))"
    using assms(3) by (auto simp: sorted_append sorted_filter less_imp_le)
qed

lemma oldest_hd_sort:
  assumes "distinct (map used m)" and "oldest m = Some x"
  shows "\<exists>rest. sort_key used m = x # rest"
proof -
  have "x \<in> set m" and least: "\<And>y. y \<in> set m \<Longrightarrow> used x \<le> used y"
    using assms(2) by (auto dest: oldest_in intro: oldest_least)
  then obtain h rest where s: "sort_key used m = h # rest"
    by (cases "sort_key used m") (auto dest: arg_cong [of _ _ set])
  have "h \<in> set m" using s by (metis list.set_intros(1) set_sort)
  moreover have "used h \<le> used x"
    using s \<open>x \<in> set m\<close> sorted_sort_key [of used m] by (auto simp: set_sort [of used m, symmetric])
  ultimately have "used h = used x" and "h \<in> set m"
    using least [OF \<open>h \<in> set m\<close>] by simp_all
  then have "h = x"
    using assms(1) \<open>x \<in> set m\<close> by (auto simp: distinct_map dest: inj_onD)
  with s show ?thesis by blast
qed

lemma sort_trim_entries:
  assumes "hm_ok m" and "distinct (map used m)"
  shows "sort_key used (trim_entries len m) = drop (length m - len) (sort_key used m)"
  using assms
proof (induction len m rule: trim_entries.induct)
  case (1 len m)
  show ?case
  proof (cases "length m > len")
    case True
    then obtain k e where o: "oldest m = Some (k, e)" by (cases "oldest m") auto
    then obtain rest where s: "sort_key used m = (k, e) # rest"
      using oldest_hd_sort "1.prems"(2) by blast
    have "distinct (map fst (sort_key used m))"
      using "1.prems"(1) by (simp add: distinct_map)
    then have rest: "sort_key used (hm_remove k m) = rest"
      using s by (auto simp: sort_key_remove filter_id_conv image_iff)
    have "length (hm_remove k m) = length m - 1"
      using rest s by (metis length_Cons length_sort diff_Suc_1)
    moreover have "sort_key used (trim_entries len (hm_remove k m)) =
        drop (length (hm_remove k m) - len) (sort_key used (hm_remove k m))"
      using "1.IH" [OF True o refl] "1.prems" by (auto simp: hm_remove_filter intro: distinct_used_filter)
    ultimately show ?thesis
      using True o s rest by (simp add: trim_entries.simps [of len m] Suc_diff_le drop_Cons')
  next
    case False
    then show ?thesis by (simp add: trim_entries.simps [of len m])
  qed
qed

lemma recency_keys: "map fst (recency c) = rev (map fst (sort_key used (entries c)))"
  by (simp add: recency_def rev_map split_beta comp_def)

lemma length_recency [simp]: "length (recency c) = length (entries c)"
  by (simp add: recency_def)

lemma distinct_recency: "lru_ok c \<Longrightarrow> distinct (map fst (recency c))"
  by (simp add: recency_keys lru_ok_def distinct_map)

lemma set_recency: "set (recency c) = (\<lambda>(k, e). (k, entry_value e, minted e)) ` set (entries c)"
  by (simp add: recency_def)

lemma map_of_recency:
  assumes "lru_ok c"
  shows "map_of (recency c) k = map_option (\<lambda>e. (entry_value e, minted e)) (hm_get (entries c) k)"
proof (cases "hm_get (entries c) k")
  case None
  then have "k \<notin> fst ` set (recency c)"
    by (force simp: hm_get_def map_of_eq_None_iff set_recency)
  with None show ?thesis by (simp add: map_of_eq_None_iff)
next
  case (Some e)
  then have "(k, entry_value e, minted e) \<in> set (recency c)"
    by (force simp: set_recency dest: hm_get_in_set)
  with Some show ?thesis using distinct_recency [OF assms] by simp
qed

lemma filter_recency:
  "filter (\<lambda>x. fst x \<noteq> k) (recency c) =
     map (\<lambda>(k, e). (k, entry_value e, minted e)) (rev (filter (\<lambda>x. fst x \<noteq> k) (sort_key used (entries c))))"
  by (simp add: recency_def filter_map comp_def split_beta rev_filter)

lemma recency_put:
  assumes "lru_ok c" and "no_wrap c"
  shows "recency (c\<lparr>clock := clock c + 1,
                    entries := hm_insert k (e\<lparr>last_used := clock c + 1\<rparr>) (entries c)\<rparr>) =
         (k, entry_value e, minted e) # filter (\<lambda>x. fst x \<noteq> k) (recency c)"
proof -
  have "\<forall>x\<in>set (entries c). used x < clock c + 1"
    using assms by (auto simp: lru_ok_def intro: word_succ_gt)
  then show ?thesis
    using assms sort_key_insert [of "entries c" "e\<lparr>last_used := clock c + 1\<rparr>" k]
    by (simp add: lru_ok_def filter_recency) (simp add: recency_def)
qed

lemma recency_get:
  assumes "lru_ok c" and "no_wrap c"
  shows "recency (snd (lru_get c k)) = spec_touch k (recency c)"
    and "fst (lru_get c k) = map_of (recency c) k"
  using assms recency_put [OF assms, of k]
  by (auto simp: lru_defs spec_touch_def map_of_recency split: option.splits) (simp add: recency_def)

lemma recency_trim:
  assumes "lru_ok c"
  shows "recency (trim_to c len) = take len (recency c)"
proof -
  have "rev (drop (length (entries c) - len) (sort_key used (entries c))) =
      take len (rev (sort_key used (entries c)))"
    by (simp add: take_rev)
  then show ?thesis
    using assms sort_trim_entries [of "entries c" len]
    by (simp add: recency_def trim_to_def lru_ok_def take_map)
qed

lemma recency_insert:
  assumes "lru_ok c" and "no_wrap c"
  shows "recency (lru_insert c k v) = spec_insert (capacity c) k (v, clock c + 1) (recency c)"
proof -
  let ?c = "if hm_contains (entries c) k then c else trim_to c (capacity c - 1)"
  have c: "lru_ok ?c" "no_wrap ?c" "clock ?c = clock c"
    using assms trim_to_ok by (auto simp: trim_to_def)
  have "recency (lru_insert c k v) = (k, v, clock c + 1) # filter (\<lambda>x. fst x \<noteq> k) (recency ?c)"
    using recency_put [OF c(1,2), of k "\<lparr>entry_value = v, last_used = 0, minted = clock c + 1\<rparr>"] c(3)
    by (simp add: lru_insert_def tick_def Let_def)
  also have "\<dots> = spec_insert (capacity c) k (v, clock c + 1) (recency c)"
  proof (cases "hm_contains (entries c) k")
    case True
    then have "length (filter (\<lambda>x. fst x \<noteq> k) (recency c)) < length (recency c)"
      by (intro length_filter_less [where x = "(k, the (map_of (recency c) k))"])
        (auto simp: hm_contains_def map_of_recency [OF assms(1)] intro!: map_of_SomeD)
    then show ?thesis
      using True assms(1) by (cases "capacity c") (auto simp: spec_insert_def lru_ok_def)
  next
    case False
    then have f: "filter (\<lambda>x. fst x \<noteq> k) (recency c) = recency c"
      by (force simp: filter_id_conv set_recency hm_contains_iff)
    then have "filter (\<lambda>x. fst x \<noteq> k) (take n (recency c)) = take n (recency c)" for n
      by (auto simp: filter_id_conv dest: in_set_takeD)
    with False f assms(1) show ?thesis
      by (cases "capacity c") (auto simp: spec_insert_def recency_trim lru_ok_def)
  qed
  finally show ?thesis .
qed

lemma recency_set_capacity: "lru_ok c \<Longrightarrow> recency (lru_set_capacity c cap) = take (max cap 1) (recency c)"
  using recency_trim [of c "max cap 1"]
  by (simp add: lru_set_capacity_def trim_to_def recency_def Let_def)

lemma recency_forget: "recency (lru_forget c k) = filter (\<lambda>x. fst x \<noteq> k) (recency c)"
  by (simp add: filter_recency) (simp add: recency_def lru_forget_def sort_key_remove)

lemma recency_clear [simp]: "recency (lru_clear c) = []" "recency (lru_new cap) = []"
  by (simp_all add: recency_def lru_clear_def lru_new_def)

lemma lru_ok_bounds: "lru_ok c \<Longrightarrow> 1 \<le> capacity c" "lru_ok c \<Longrightarrow> length (recency c) \<le> capacity c"
  by (simp_all add: lru_ok_def)

subsection \<open>The contract of a cache in order of use, and its clients\<close>

text \<open>
  What the session store relies on. \<open>live\<close> is the abstract list, \<open>fresh\<close> says that the next use
  can be stamped, \<open>stamped c v\<close> is what is stored for \<open>v\<close>.
\<close>

locale recency_cache =
  fixes look :: "'c \<Rightarrow> string \<Rightarrow> 'a option \<times> 'c"
    and put :: "'c \<Rightarrow> string \<Rightarrow> 'v \<Rightarrow> 'c"
    and discard :: "'c \<Rightarrow> string \<Rightarrow> 'c"
    and live :: "'c \<Rightarrow> (string \<times> 'a) list"
    and room :: "'c \<Rightarrow> nat"
    and ok :: "'c \<Rightarrow> bool"
    and fresh :: "'c \<Rightarrow> bool"
    and stamped :: "'c \<Rightarrow> 'v \<Rightarrow> 'a"
  assumes look_result: "ok c \<Longrightarrow> fresh c \<Longrightarrow> fst (look c k) = map_of (live c) k"
    and look_live: "ok c \<Longrightarrow> fresh c \<Longrightarrow> live (snd (look c k)) = spec_touch k (live c)"
    and put_live: "ok c \<Longrightarrow> fresh c \<Longrightarrow> live (put c k v) = spec_insert (room c) k (stamped c v) (live c)"
    and discard_live: "live (discard c k) = filter (\<lambda>x. fst x \<noteq> k) (live c)"
    and ok_look: "ok c \<Longrightarrow> fresh c \<Longrightarrow> ok (snd (look c k))"
    and ok_put: "ok c \<Longrightarrow> fresh c \<Longrightarrow> ok (put c k v)"
    and ok_discard: "ok c \<Longrightarrow> ok (discard c k)"
    and live_distinct: "ok c \<Longrightarrow> distinct (map fst (live c))"
    and live_bound: "ok c \<Longrightarrow> length (live c) \<le> room c"
    and room_pos: "ok c \<Longrightarrow> 1 \<le> room c"
begin

lemma put_head: "ok c \<Longrightarrow> fresh c \<Longrightarrow> \<exists>rest. live (put c k v) = (k, stamped c v) # rest"
  using put_live [of c k v] room_pos [of c] by (cases "room c") (auto simp: spec_insert_def)

lemma look_after_put:
  assumes "ok c" "fresh c" "fresh (put c k v)"
  shows "fst (look (put c k v) k) = Some (stamped c v)"
  using put_head [OF assms(1,2), of k v] look_result [OF ok_put [OF assms(1,2)] assms(3), of k]
  by auto

lemma look_after_discard:
  "ok c \<Longrightarrow> fresh (discard c k) \<Longrightarrow> fst (look (discard c k) k) = None"
  by (auto simp: look_result ok_discard discard_live map_of_eq_None_iff)

lemma put_full:
  assumes "ok c" "fresh c" "k \<notin> fst ` set (live c)" "length (live c) = room c"
  shows "live (put c k v) = (k, stamped c v) # butlast (live c)"
proof -
  have "filter (\<lambda>x. fst x \<noteq> k) (live c) = live c"
    using assms(3) by (auto simp: filter_id_conv)
  then show ?thesis
    using assms room_pos [OF assms(1)]
    by (cases "room c") (auto simp: put_live spec_insert_def butlast_conv_take)
qed

lemma put_not_full:
  assumes "ok c" "fresh c" "length (live c) < room c"
  shows "live (put c k v) = (k, stamped c v) # filter (\<lambda>x. fst x \<noteq> k) (live c)"
  using assms length_filter_le [of "\<lambda>x. fst x \<noteq> k" "live c"]
  by (cases "room c") (auto simp: put_live spec_insert_def simp del: length_filter_le)

lemma look_most_recent:
  assumes "ok c" "fresh c" "fst (look c k) = Some a"
  shows "hd (live (snd (look c k))) = (k, a)" and "mset (live (snd (look c k))) = mset (live c)"
proof -
  have a: "map_of (live c) k = Some a" using assms by (simp add: look_result)
  then show "hd (live (snd (look c k))) = (k, a)"
    using assms by (simp add: look_live spec_touch_def)
  obtain xs ys where live: "live c = xs @ (k, a) # ys"
    using a by (metis map_of_SomeD split_list)
  then have "filter (\<lambda>x. fst x \<noteq> k) (live c) = xs @ ys"
    using live_distinct [OF assms(1)] by (auto simp: image_iff intro!: arg_cong2 [of _ _ _ _ append] filter_True)
  then show "mset (live (snd (look c k))) = mset (live c)"
    using assms a live by (simp add: look_live spec_touch_def)
qed

end

interpretation lru: recency_cache lru_get lru_insert lru_forget recency capacity lru_ok no_wrap
  "\<lambda>c v. (v, clock c + 1)"
proof (unfold_locales, goal_cases)
  case (1 c k)
  then show ?case by (rule recency_get(2))
next
  case (2 c k)
  then show ?case by (rule recency_get(1))
next
  case (3 c k v)
  then show ?case by (rule recency_insert)
next
  case (4 c k)
  show ?case by (rule recency_forget)
next
  case (8 c)
  then show ?case by (rule distinct_recency)
next
  case (9 c)
  then show ?case by (rule lru_ok_bounds)
next
  case (10 c)
  then show ?case by (rule lru_ok_bounds)
qed (auto intro: lru_ok_intros)

subsection \<open>Properties\<close>

text \<open>
  C1 (refinement). On every well-formed LRU whose use counter does not wrap at the next tick, the
  operations implement the bounded list in order of use: \<^verbatim>\<open>get\<close> returns what the list holds and
  moves it to the front, \<^verbatim>\<open>insert\<close> puts the session in front with the next mint stamp and drops
  only what no longer fits at the far end, \<^verbatim>\<open>set_capacity\<close> keeps the most recently used ones,
  \<^verbatim>\<open>forget\<close> deletes one secret, \<^verbatim>\<open>clear\<close> all.
\<close>

theorem lru_refines_recency_list:
  assumes "lru_ok c" and "no_wrap c"
  shows "fst (lru_get c k) = map_of (recency c) k \<and>
         recency (snd (lru_get c k)) = spec_touch k (recency c) \<and>
         recency (lru_insert c k v) = spec_insert (capacity c) k (v, clock c + 1) (recency c) \<and>
         recency (lru_set_capacity c cap) = take (max cap 1) (recency c) \<and>
         recency (lru_forget c k) = filter (\<lambda>x. fst x \<noteq> k) (recency c) \<and>
         recency (lru_clear c) = []"
  using assms
  by (simp add: lru.look_result lru.look_live lru.put_live lru.discard_live recency_set_capacity)

theorem lru_refines_recency_list_witness:
  "recency (lru_insert (lru_insert (lru_new 1) ''a'' (10::nat)) ''b'' 20) = [(''b'', 20, 2)]"
proof -
  have ok: "lru_ok (lru_insert (lru_new 1) ''a'' (10::nat))"
    by (intro lru_insert_ok lru_new_ok) (simp add: lru_new_def)
  have r: "recency (lru_insert (lru_new 1) ''a'' (10::nat)) = [(''a'', 10, 1)]"
    and w: "no_wrap (lru_insert (lru_new 1) ''a'' (10::nat))"
    and cl: "clock (lru_insert (lru_new 1) ''a'' (10::nat)) = 1"
    and cap: "capacity (lru_insert (lru_new 1) ''a'' (10::nat)) = 1"
    by (simp_all add: lru_new_def lru_insert_def tick_def trim_to_def trim_entries.simps hm_insert_def
        recency_def hm_contains_def)
  show ?thesis
    using lru_refines_recency_list [OF ok w, of "''b''" 20 0] r cl cap by (simp add: spec_insert_def)
qed

text \<open>
  Every operation keeps the LRU well formed: distinct secrets, distinct use stamps
  none later than the clock, a positive capacity that is never exceeded. A new LRU is well formed
  whatever capacity is asked for.
\<close>

theorem lru_operations_keep_invariant:
  "lru_ok (lru_new cap) \<and>
   (lru_ok c \<and> no_wrap c \<longrightarrow>
      lru_ok (snd (lru_get c k)) \<and> lru_ok (snd (minted_after c k stale)) \<and> lru_ok (lru_insert c k v)) \<and>
   (lru_ok c \<longrightarrow>
      lru_ok (lru_set_capacity c cap) \<and> lru_ok (lru_forget c k) \<and> lru_ok (lru_clear c))"
proof -
  have "snd (minted_after c k stale) = snd (lru_get c k)"
    by (simp add: minted_after_def split: prod.split option.split)
  then show ?thesis by (auto intro: lru_ok_intros)
qed

theorem lru_operations_keep_invariant_witness:
  "lru_ok (lru_new 0 :: nat lru) \<and> no_wrap (lru_new 0 :: nat lru) \<and>
   lru_ok (lru_insert (lru_new 0) ''s'' (7::nat)) \<and> lru_ok (snd (lru_get (lru_new 0 :: nat lru) ''s''))"
  using lru_operations_keep_invariant [of 0 "lru_new 0 :: nat lru" "''s''" 0 7]
  by (auto simp: lru_new_def)

text \<open>
  Inserting a new secret into a full cache evicts exactly one session, the one used
  longest ago; every other session stays, in the same order.
\<close>

theorem overflow_evicts_only_least_recently_used:
  assumes "lru_ok c" and "no_wrap c"
    and "k \<notin> fst ` set (recency c)" and "length (recency c) = capacity c"
  shows "recency (lru_insert c k v) = (k, v, clock c + 1) # butlast (recency c)"
  using lru.put_full [OF assms] .

theorem overflow_evicts_only_least_recently_used_witness:
  "recency (lru_insert \<lparr>capacity = 2, clock = 5, entries =
       [(''a'', \<lparr>entry_value = 1::nat, last_used = 5, minted = 1\<rparr>),
        (''b'', \<lparr>entry_value = 2, last_used = 4, minted = 2\<rparr>)]\<rparr> ''c'' 3) =
   [(''c'', 3, 6), (''a'', 1, 1)]"
proof -
  let ?c = "\<lparr>capacity = 2, clock = 5, entries =
       [(''a'', \<lparr>entry_value = 1::nat, last_used = 5, minted = 1\<rparr>),
        (''b'', \<lparr>entry_value = 2, last_used = 4, minted = 2\<rparr>)]\<rparr>"
  have "lru_ok ?c" and "no_wrap ?c" by (simp_all add: lru_ok_def)
  moreover have "recency ?c = [(''a'', 1, 1), (''b'', 2, 2)]"
    by (simp add: recency_def)
  ultimately show ?thesis
    using overflow_evicts_only_least_recently_used [of ?c "''c''" 3] by simp
qed

text \<open>
  C30 (equivalence). The order in which the \<^verbatim>\<open>HashMap\<close> is iterated does not influence what is
  evicted: trimming two maps with the same entries in any two orders keeps the same entries.
\<close>

theorem eviction_ignores_iteration_order:
  assumes "mset m = mset m'" and "hm_ok m" and "distinct (map used m)"
  shows "mset (trim_entries len m) = mset (trim_entries len m')"
proof -
  have "mset (map used m) = mset (map used m')" and "mset (map fst m) = mset (map fst m')"
    using assms(1) by simp_all
  then have m': "hm_ok m'" "distinct (map used m')"
    using assms(2,3) mset_eq_imp_distinct_iff by blast+
  have "sort_key used m' = sort_key used m"
    using assms(1,3) by (intro sort_key_inj_key_eq)
      (auto simp: distinct_map dest: mset_eq_setD [symmetric])
  moreover have "length m' = length m" using assms(1) by (metis size_mset)
  ultimately have "sort_key used (trim_entries len m) = sort_key used (trim_entries len m')"
    using sort_trim_entries [OF assms(2,3)] sort_trim_entries [OF m'] by simp
  then show ?thesis by (metis mset_sort)
qed

theorem eviction_ignores_iteration_order_witness:
  "mset (trim_entries 1 [(''a'', \<lparr>entry_value = 1::nat, last_used = 5, minted = 1\<rparr>),
                         (''b'', \<lparr>entry_value = 2, last_used = 4, minted = 2\<rparr>)]) =
   mset (trim_entries 1 [(''b'', \<lparr>entry_value = 2, last_used = 4, minted = 2\<rparr>),
                         (''a'', \<lparr>entry_value = 1::nat, last_used = 5, minted = 1\<rparr>)])"
  by (rule eviction_ignores_iteration_order) simp_all

end
