(* ===== verification/Session_Store.thy ===== *)
theory Session_Store
  imports Sdk_Errors Lru_Cache
begin

section \<open>The session store and the calls that go through it\<close>

text \<open>
  Models the rest of \<^verbatim>\<open>src/session_cache.rs\<close>: \<^verbatim>\<open>SessionStore\<close> around the LRU with its mint locks,
  the import of a session and its error wording, and \<^verbatim>\<open>with_session\<close>, which every authenticated
  write goes through.

  The SDK enters as parameters: \<open>restore\<close> stands for \<^verbatim>\<open>Pubky::restore_session\<close>, \<open>mint\<close> for the
  closure the store is given, \<open>operation\<close> for the caller's request. Each takes and returns the
  outside world \<open>'w\<close>, so an equation for a result also says which requests were made and in which
  order. The functions here are one call run on its own; theory \<open>Single_Flight\<close> interleaves many.
\<close>

subsection \<open>Classification and wording\<close>

definition DEFAULT_CAPACITY :: nat where
  "DEFAULT_CAPACITY = 4"

definition SESSION_REJECTED :: string where
  "SESSION_REJECTED = ''Session rejected''"

definition is_session_rejected :: "sdk_error \<Rightarrow> bool" where
  "is_session_rejected e =
     (case variant e of
        Authentication _ \<Rightarrow> True
      | Request (ReqServer status _) \<Rightarrow> status = 401 \<or> status = 403
      | _ \<Rightarrow> False)"

definition rejected :: "sdk_error \<Rightarrow> string \<Rightarrow> string" where
  "rejected e detail =
     SESSION_REJECTED @ '': the homeserver refused this session as invalid: '' @ detail @
     (case variant e of Authentication _ \<Rightarrow> '' (authentication)'' | _ \<Rightarrow> '''')"

datatype session_op_error = Import string | Op sdk_error

fun into_message :: "session_op_error \<Rightarrow> string \<Rightarrow> string" where
  "into_message (Import message) verb = message"
| "into_message (Op e) verb =
     (if is_session_rejected e then rejected e (verb @ '': '' @ display e)
      else verb @ '': '' @ full_error_chain e)"

subsection \<open>The store\<close>

text \<open>
  \<open>minting\<close> maps a secret to the number of clones of its lock that calls in flight hold; the
  reference the map itself holds is not counted, so \<^verbatim>\<open>Arc::strong_count\<close> is one more.
\<close>

record 's session_store =
  store_lru :: "'s lru"
  minting :: "nat hmap"

definition store_new :: "nat \<Rightarrow> 's session_store" where
  "store_new cap = \<lparr>store_lru = lru_new cap, minting = []\<rparr>"

definition cached :: "'s session_store \<Rightarrow> string \<Rightarrow> ('s \<times> u64) option \<times> 's session_store" where
  "cached st secret = (let (r, c) = lru_get (store_lru st) secret in (r, st\<lparr>store_lru := c\<rparr>))"

definition remember :: "'s session_store \<Rightarrow> string \<Rightarrow> 's \<Rightarrow> 's session_store" where
  "remember st secret v = st\<lparr>store_lru := lru_insert (store_lru st) secret v\<rparr>"

definition forget :: "'s session_store \<Rightarrow> string \<Rightarrow> 's session_store" where
  "forget st secret = st\<lparr>store_lru := lru_forget (store_lru st) secret\<rparr>"

definition clear :: "'s session_store \<Rightarrow> 's session_store" where
  "clear st = st\<lparr>store_lru := lru_clear (store_lru st)\<rparr>"

definition configure :: "'s session_store \<Rightarrow> nat \<Rightarrow> nat \<times> 's session_store" where
  "configure st cap =
     (let st = st\<lparr>store_lru := lru_set_capacity (store_lru st) cap\<rparr> in (capacity (store_lru st), st))"

definition store_values :: "'s session_store \<Rightarrow> (string \<times> 's) list" where
  "store_values st = map (\<lambda>(secret, e). (secret, entry_value e)) (entries (store_lru st))"

text \<open>
  \<^verbatim>\<open>single_flight\<close>: clone the secret's lock, run the body holding it, and drop the map's reference
  when the only others left are the map's and ours.
\<close>

definition lock_refs :: "'s session_store \<Rightarrow> string \<Rightarrow> nat" where
  "lock_refs st secret = (case hm_get (minting st) secret of None \<Rightarrow> 0 | Some n \<Rightarrow> n)"

definition enter_flight :: "'s session_store \<Rightarrow> string \<Rightarrow> 's session_store" where
  "enter_flight st secret =
     st\<lparr>minting := hm_insert secret (lock_refs st secret + 1) (minting st)\<rparr>"

definition leave_flight :: "'s session_store \<Rightarrow> string \<Rightarrow> 's session_store" where
  "leave_flight st secret =
     (if lock_refs st secret + 1 = 2 then st\<lparr>minting := hm_remove secret (minting st)\<rparr>
      else st\<lparr>minting := hm_insert secret (lock_refs st secret - 1) (minting st)\<rparr>)"

definition single_flight ::
  "'s session_store \<Rightarrow> string \<Rightarrow> ('s session_store \<Rightarrow> 'w \<Rightarrow> 't \<times> 's session_store \<times> 'w) \<Rightarrow> 'w \<Rightarrow>
   't \<times> 's session_store \<times> 'w" where
  "single_flight st secret body w =
     (let (r, st, w) = body (enter_flight st secret) w in (r, leave_flight st secret, w))"

definition mint_and_remember ::
  "('w \<Rightarrow> 's result \<times> 'w) \<Rightarrow> string \<Rightarrow> 's session_store \<Rightarrow> 'w \<Rightarrow> 's result \<times> 's session_store \<times> 'w" where
  "mint_and_remember mint secret st w =
     (case mint w of
        (Inl message, w) \<Rightarrow> (Inl message, st, w)
      | (Inr v, w) \<Rightarrow> (Inr v, remember st secret v, w))"

definition get_or_mint ::
  "'s session_store \<Rightarrow> string \<Rightarrow> ('w \<Rightarrow> 's result \<times> 'w) \<Rightarrow> 'w \<Rightarrow> 's result \<times> 's session_store \<times> 'w" where
  "get_or_mint st secret mint w =
     (case cached st secret of
        (Some (v, _), st) \<Rightarrow> (Inr v, st, w)
      | (None, st) \<Rightarrow>
          single_flight st secret (\<lambda>st w.
            case cached st secret of
              (Some (v, _), st) \<Rightarrow> (Inr v, st, w)
            | (None, st) \<Rightarrow> mint_and_remember mint secret st w) w)"

definition remint ::
  "'s session_store \<Rightarrow> string \<Rightarrow> u64 option \<Rightarrow> ('w \<Rightarrow> 's result \<times> 'w) \<Rightarrow> 'w \<Rightarrow>
   's result \<times> 's session_store \<times> 'w" where
  "remint st secret stale mint w =
     single_flight st secret (\<lambda>st w.
       case minted_after (store_lru st) secret (case stale of None \<Rightarrow> 0 | Some n \<Rightarrow> n) of
         (Some v, c) \<Rightarrow> (Inr v, st\<lparr>store_lru := c\<rparr>, w)
       | (None, c) \<Rightarrow>
           mint_and_remember mint secret (forget (st\<lparr>store_lru := c\<rparr>) secret) w) w"

subsection \<open>Imports and operations\<close>

definition import_session ::
  "(string \<Rightarrow> 'w \<Rightarrow> (sdk_error + 's) \<times> 'w) \<Rightarrow> string \<Rightarrow> 'w \<Rightarrow> 's result \<times> 'w" where
  "import_session restore secret w =
     (case restore secret w of
        (Inr session, w) \<Rightarrow> (Inr session, w)
      | (Inl e, w) \<Rightarrow>
          (if is_session_rejected e then (Inl (rejected e (display e)), w)
           else (Inl (''Failed to import session: '' @ full_error_chain e), w)))"

definition session_for ::
  "(string \<Rightarrow> 'w \<Rightarrow> (sdk_error + 's) \<times> 'w) \<Rightarrow> string \<Rightarrow> 's session_store \<Rightarrow> 'w \<Rightarrow>
   's result \<times> 's session_store \<times> 'w" where
  "session_for restore secret st w = get_or_mint st secret (import_session restore secret) w"

definition refreshed_session ::
  "(string \<Rightarrow> 'w \<Rightarrow> (sdk_error + 's) \<times> 'w) \<Rightarrow> string \<Rightarrow> 's session_store \<Rightarrow> 'w \<Rightarrow>
   's result \<times> 's session_store \<times> 'w" where
  "refreshed_session restore secret st w =
     (let (seen, st) = cached st secret
      in remint st secret (map_option snd seen) (import_session restore secret) w)"

definition with_session ::
  "(string \<Rightarrow> 'w \<Rightarrow> (sdk_error + 's) \<times> 'w) \<Rightarrow> string \<Rightarrow> ('s \<Rightarrow> 'w \<Rightarrow> (sdk_error + 't) \<times> 'w) \<Rightarrow>
   's session_store \<Rightarrow> 'w \<Rightarrow> (session_op_error + 't) \<times> 's session_store \<times> 'w" where
  "with_session restore secret operation st w =
     (case cached st secret of
        (None, st) \<Rightarrow>
          (case session_for restore secret st w of
             (Inl message, st, w) \<Rightarrow> (Inl (Import message), st, w)
           | (Inr session, st, w) \<Rightarrow>
               (case operation session w of
                  (Inl e, w) \<Rightarrow> (Inl (Op e), st, w)
                | (Inr v, w) \<Rightarrow> (Inr v, st, w)))
      | (Some (session, stamp), st) \<Rightarrow>
          (case operation session w of
             (Inr v, w) \<Rightarrow> (Inr v, st, w)
           | (Inl e, w) \<Rightarrow>
               (if is_session_rejected e
                then (case remint st secret (Some stamp) (import_session restore secret) w of
                        (Inl message, st, w) \<Rightarrow> (Inl (Import message), st, w)
                      | (Inr fresh, st, w) \<Rightarrow>
                          (case operation fresh w of
                             (Inl e, w) \<Rightarrow> (Inl (Op e), st, w)
                           | (Inr v, w) \<Rightarrow> (Inr v, st, w)))
                else (Inl (Op e), st, w))))"

text \<open>
  \<^verbatim>\<open>forget_grant\<close>: the loop over a snapshot of the sessions; \<open>as_grant\<close> and \<open>grant_id\<close> are the
  SDK's accessors.
\<close>

fun forget_grant_from ::
  "('s \<Rightarrow> 'g option) \<Rightarrow> ('g \<Rightarrow> 'w \<Rightarrow> string \<times> 'w) \<Rightarrow> string \<Rightarrow> (string \<times> 's) list \<Rightarrow>
   's session_store \<Rightarrow> 'w \<Rightarrow> 's session_store \<times> 'w" where
  "forget_grant_from as_grant grant_id gid [] st w = (st, w)"
| "forget_grant_from as_grant grant_id gid ((secret, session) # rest) st w =
     (case as_grant session of
        None \<Rightarrow> forget_grant_from as_grant grant_id gid rest st w
      | Some grant \<Rightarrow>
          (case grant_id grant w of
             (i, w) \<Rightarrow>
               forget_grant_from as_grant grant_id gid rest
                 (if i = gid then forget st secret else st) w))"

definition forget_grant ::
  "('s \<Rightarrow> 'g option) \<Rightarrow> ('g \<Rightarrow> 'w \<Rightarrow> string \<times> 'w) \<Rightarrow> string \<Rightarrow> 's session_store \<Rightarrow> 'w \<Rightarrow>
   's session_store \<times> 'w" where
  "forget_grant as_grant grant_id gid st w =
     forget_grant_from as_grant grant_id gid (store_values st) st w"

lemmas store_defs = cached_def remember_def forget_def clear_def configure_def single_flight_def
  enter_flight_def leave_flight_def mint_and_remember_def get_or_mint_def remint_def lock_refs_def

subsection \<open>What the store holds for a secret\<close>

definition held :: "'s session_store \<Rightarrow> string \<Rightarrow> ('s \<times> u64) option" where
  "held st secret =
     map_option (\<lambda>e. (entry_value e, minted e)) (hm_get (entries (store_lru st)) secret)"

lemma fst_cached [simp]: "fst (cached st k) = held st k"
  by (simp add: cached_def held_def lru_defs split: option.splits)

lemma held_cached [simp]: "held (snd (cached st k)) k' = held st k'"
  by (auto simp: cached_def held_def lru_defs split: option.splits)

lemma cached_eq: "cached st k = (held st k, snd (cached st k))"
  by (metis fst_cached prod.collapse)

lemma clock_cached [simp]: "clock (store_lru (snd (cached st k))) = clock (store_lru st) + 1"
  by (auto simp: cached_def lru_defs split: option.splits)

lemma minting_cached [simp]: "minting (snd (cached st k)) = minting st"
  by (simp add: cached_def split: prod.split)

lemma held_forget [simp]: "held (forget st k) k' = (if k' = k then None else held st k')"
  by (simp add: forget_def held_def lru_forget_def)

lemma held_remember [simp]: "held (remember st k v) k = Some (v, clock (store_lru st) + 1)"
  by (simp add: remember_def held_def lru_defs trim_to_def)

lemma clock_remember [simp]: "clock (store_lru (remember st k v)) = clock (store_lru st) + 1"
  by (simp add: remember_def lru_defs trim_to_def)

lemma clock_forget [simp]: "clock (store_lru (forget st k)) = clock (store_lru st)"
  by (simp add: forget_def lru_forget_def)

lemma minting_frame [simp]:
  "minting (remember st k v) = minting st" "minting (forget st k) = minting st"
  by (simp_all add: remember_def forget_def)

lemma flight_frame [simp]:
  "store_lru (enter_flight st k) = store_lru st" "store_lru (leave_flight st k) = store_lru st"
  by (simp_all add: enter_flight_def leave_flight_def)

lemma held_flight [simp]:
  "held (enter_flight st k) k' = held st k'" "held (leave_flight st k) k' = held st k'"
  by (simp_all add: held_def)

text \<open>A flight that nobody else joined leaves the lock map as it found it.\<close>

lemma leave_flight_alone:
  assumes "hm_get (minting st) k = None" and "minting st' = minting (enter_flight st k)"
  shows "minting (leave_flight st' k) = minting st"
  using assms by (simp add: leave_flight_def enter_flight_def lock_refs_def)

lemma leave_flight_shared:
  assumes "hm_get (minting st) k = Some (Suc n)" and "minting st' = minting (enter_flight st k)"
  shows "hm_get (minting (leave_flight st' k)) k = Some (Suc n)"
  using assms by (simp add: leave_flight_def enter_flight_def lock_refs_def)

lemma minted_after_cached:
  "minted_after (store_lru st) k stale =
     (case held st k of
        None \<Rightarrow> None
      | Some (v, stamp) \<Rightarrow> if stamp > stale then Some v else None,
      store_lru (snd (cached st k)))"
  by (auto simp: minted_after_def cached_def held_def lru_defs split: option.splits prod.splits)

lemma store_lru_upd_cached [simp]: "st\<lparr>store_lru := store_lru (snd (cached st k))\<rparr> = snd (cached st k)"
  by (simp add: cached_def split: prod.split)

lemma get_or_mint_hit:
  "held st k = Some (v, n) \<Longrightarrow> get_or_mint st k mint w = (Inr v, snd (cached st k), w)"
  unfolding get_or_mint_def by (subst cached_eq) simp

lemma get_or_mint_miss:
  assumes "held st k = None"
  defines "st0 \<equiv> snd (cached (enter_flight (snd (cached st k)) k) k)"
  shows "get_or_mint st k mint w =
    (case mint w of
       (Inl m, w) \<Rightarrow> (Inl m, leave_flight st0 k, w)
     | (Inr v, w) \<Rightarrow> (Inr v, leave_flight (remember st0 k v) k, w))"
  using assms(1) cached_eq [of st k] cached_eq [of "enter_flight (snd (cached st k)) k" k]
  by (auto simp: get_or_mint_def single_flight_def mint_and_remember_def st0_def
      split: prod.splits sum.splits option.splits)

lemma remint_newer:
  assumes "held st k = Some (v, n)" and "n > (case stale of None \<Rightarrow> 0 | Some m \<Rightarrow> m)"
  shows "remint st k stale mint w =
    (Inr v, leave_flight (snd (cached (enter_flight st k) k)) k, w)"
  using assms minted_after_cached [of "enter_flight st k" k]
  by (auto simp: remint_def single_flight_def split: prod.splits)

lemma remint_stale:
  assumes "\<And>v n. held st k = Some (v, n) \<Longrightarrow> \<not> n > (case stale of None \<Rightarrow> 0 | Some m \<Rightarrow> m)"
  defines "st0 \<equiv> forget (snd (cached (enter_flight st k) k)) k"
  shows "remint st k stale mint w =
    (case mint w of
       (Inl m, w) \<Rightarrow> (Inl m, leave_flight st0 k, w)
     | (Inr v, w) \<Rightarrow> (Inr v, leave_flight (remember st0 k v) k, w))"
proof -
  have "fst (minted_after (store_lru (enter_flight st k)) k (case stale of None \<Rightarrow> 0 | Some m \<Rightarrow> m)) = None"
    unfolding minted_after_cached using assms(1) by (auto split: option.splits)
  then show ?thesis
    using minted_after_cached [of "enter_flight st k" k]
    by (auto simp: remint_def single_flight_def mint_and_remember_def st0_def
        split: prod.splits sum.splits option.splits)
qed

lemma cached_Some: "held st k = Some (v, n) \<Longrightarrow> cached st k = (Some (v, n), snd (cached st k))"
  using cached_eq [of st k] by simp

lemma cached_None: "held st k = None \<Longrightarrow> cached st k = (None, snd (cached st k))"
  using cached_eq [of st k] by simp

lemma with_session_warm:
  assumes "held st secret = Some (session, stamp)"
  shows "with_session restore secret operation st w =
    (case operation session w of
       (Inr v, w) \<Rightarrow> (Inr v, snd (cached st secret), w)
     | (Inl e, w) \<Rightarrow>
         (if is_session_rejected e
          then (case remint (snd (cached st secret)) secret (Some stamp) (import_session restore secret) w of
                  (Inl message, st, w) \<Rightarrow> (Inl (Import message), st, w)
                | (Inr fresh, st, w) \<Rightarrow>
                    (case operation fresh w of
                       (Inl e, w) \<Rightarrow> (Inl (Op e), st, w)
                     | (Inr v, w) \<Rightarrow> (Inr v, st, w)))
          else (Inl (Op e), snd (cached st secret), w)))"
  unfolding with_session_def by (subst cached_Some [OF assms]) (simp split: prod.splits sum.splits)

lemma with_session_cold:
  assumes "held st secret = None"
  shows "with_session restore secret operation st w =
    (case session_for restore secret (snd (cached st secret)) w of
       (Inl message, st, w) \<Rightarrow> (Inl (Import message), st, w)
     | (Inr session, st, w) \<Rightarrow>
         (case operation session w of
            (Inl e, w) \<Rightarrow> (Inl (Op e), st, w)
          | (Inr v, w) \<Rightarrow> (Inr v, st, w)))"
  unfolding with_session_def by (subst cached_None [OF assms]) simp

text \<open>A re-mint for the stamp the caller itself saw always imports: nothing newer is cached.\<close>

lemma remint_own_stamp:
  assumes "held st secret = Some (session, stamp)"
  shows "\<exists>st0. remint st secret (Some stamp) mint w =
    (case mint w of
       (Inl m, w) \<Rightarrow> (Inl m, leave_flight st0 secret, w)
     | (Inr v, w) \<Rightarrow> (Inr v, leave_flight (remember st0 secret v) secret, w)) \<and>
    held st0 secret = None"
  using remint_stale [of st secret "Some stamp" mint w] assms by auto

subsection \<open>Properties\<close>

text \<open>
  C3 (functional). A request for a secret whose session is cached is sent once and nothing else is:
  on success, and on every failure that is not a rejection of the session, the world afterwards is
  the world the one operation left, no import was made, and the error is the operation's own.
\<close>

theorem with_session_warm_single_request:
  assumes "held st secret = Some (session, stamp)"
    and "operation session w = (r, w1)"
    and "\<forall>e. r = Inl e \<longrightarrow> \<not> is_session_rejected e"
  shows "with_session restore secret operation st w =
           (case r of Inl e \<Rightarrow> Inl (Op e) | Inr v \<Rightarrow> Inr v, snd (cached st secret), w1)"
  using assms by (simp add: with_session_warm split: sum.splits)

theorem with_session_warm_single_request_witness:
  "with_session (\<lambda>secret w. (Inr 9, w + 100)) ''s'' (\<lambda>session w. (Inr (session + w), w + 1))
     (remember (store_new 4) ''s'' (5::nat)) (10::nat) =
   (Inr 15, snd (cached (remember (store_new 4) ''s'' 5) ''s''), 11)"
proof -
  have "held (remember (store_new 4) ''s'' (5::nat)) ''s'' = Some (5, 1)"
    by (simp add: store_new_def lru_new_def)
  then show ?thesis
    using with_session_warm_single_request [of "remember (store_new 4) ''s'' (5::nat)" "''s''" 5 1
        "\<lambda>session w. (Inr (session + w), w + 1)" "10::nat" "Inr 15" 11 "\<lambda>secret w. (Inr 9, w + 100)"]
    by simp
qed

text \<open>
  C2 (functional). When the homeserver refuses the cached session, the call imports the secret again
  exactly once and repeats the operation exactly once. If the import fails its message is returned
  and the secret is no longer cached; otherwise the repeated operation runs on the fresh session, its
  result is returned as it is, and the fresh session is what stays cached.
\<close>

theorem with_session_rejection_reimports_once:
  assumes "held st secret = Some (session, stamp)"
    and "operation session w = (Inl e, w1)" and "is_session_rejected e"
    and "import_session restore secret w1 = (imported, w2)"
  shows "\<exists>st'. (case imported of
      Inl message \<Rightarrow>
        with_session restore secret operation st w = (Inl (Import message), st', w2) \<and>
        held st' secret = None
    | Inr fresh \<Rightarrow>
        with_session restore secret operation st w =
          (case operation fresh w2 of
             (Inl e', w3) \<Rightarrow> (Inl (Op e'), st', w3)
           | (Inr v, w3) \<Rightarrow> (Inr v, st', w3)) \<and>
        (\<exists>stamp'. held st' secret = Some (fresh, stamp')))"
proof -
  obtain st0 where r: "remint (snd (cached st secret)) secret (Some stamp) (import_session restore secret) w1 =
    (case imported of
       Inl m \<Rightarrow> (Inl m, leave_flight st0 secret, w2)
     | Inr v \<Rightarrow> (Inr v, leave_flight (remember st0 secret v) secret, w2))"
    and h: "held st0 secret = None"
    using remint_own_stamp [of "snd (cached st secret)" secret session stamp
        "import_session restore secret" w1] assms(1,4) by auto
  show ?thesis
  proof (cases imported)
    case (Inl m)
    with r h show ?thesis
      using assms by (intro exI [of _ "leave_flight st0 secret"]) (simp add: with_session_warm)
  next
    case (Inr fresh)
    with r show ?thesis
      using assms
      by (intro exI [of _ "leave_flight (remember st0 secret fresh) secret"]) (simp add: with_session_warm)
  qed
qed

definition refused :: sdk_error where
  "refused = \<lparr>display = ''unauthorized'', sources = [], variant = Request (ReqServer 401 ''expired'')\<rparr>"

theorem with_session_rejection_reimports_once_witness:
  "\<exists>st'. with_session (\<lambda>secret w. (Inr 9, w + 100)) ''s''
       (\<lambda>session w. if session = 9 then (Inr w, w + 1) else (Inl refused, w + 1))
       (remember (store_new 4) ''s'' (5::nat)) (10::nat) = (Inr 111, st', 112)"
proof -
  have h: "held (remember (store_new 4) ''s'' (5::nat)) ''s'' = Some (5, 1)"
    by (simp add: store_new_def lru_new_def)
  show ?thesis
    using with_session_rejection_reimports_once [OF h,
        where operation = "\<lambda>session w. if session = 9 then (Inr w, w + 1) else (Inl refused, w + 1)"
        and w = "10::nat" and ?w1.0 = 11 and restore = "\<lambda>secret w. (Inr 9, w + 100)"
        and imported = "Inr 9" and ?w2.0 = 111 and e = refused]
    by (auto simp: is_session_rejected_def import_session_def refused_def)
qed

lemma with_session_cold_spec:
  assumes "held st secret = None" and "import_session restore secret w = (imported, w1)"
  shows "\<exists>st'. (case imported of
      Inl message \<Rightarrow>
        with_session restore secret operation st w = (Inl (Import message), st', w1) \<and>
        held st' secret = None
    | Inr session \<Rightarrow>
        with_session restore secret operation st w =
          (case operation session w1 of
             (Inl e, w2) \<Rightarrow> (Inl (Op e), st', w2)
           | (Inr v, w2) \<Rightarrow> (Inr v, st', w2)) \<and>
        (\<exists>stamp. held st' secret = Some (session, stamp)))"
proof -
  let ?st = "snd (cached st secret)"
  define st0 where "st0 = snd (cached (enter_flight (snd (cached ?st secret)) secret) secret)"
  have h0: "held st0 secret = None" using assms(1) by (simp add: st0_def)
  have f: "session_for restore secret ?st w =
    (case imported of
       Inl m \<Rightarrow> (Inl m, leave_flight st0 secret, w1)
     | Inr v \<Rightarrow> (Inr v, leave_flight (remember st0 secret v) secret, w1))"
    using get_or_mint_miss [of ?st secret "import_session restore secret" w] assms
    by (simp add: session_for_def st0_def split: sum.splits)
  show ?thesis
  proof (cases imported)
    case (Inl m)
    with f h0 assms(1) show ?thesis
      by (intro exI [of _ "leave_flight st0 secret"]) (simp add: with_session_cold)
  next
    case (Inr session)
    with f assms(1) show ?thesis
      by (intro exI [of _ "leave_flight (remember st0 secret session) secret"]) (simp add: with_session_cold)
  qed
qed

text \<open>
  C4 (functional). A request for a secret with nothing cached imports it exactly once and sends the
  operation at most once, on the imported session: a rejection after a fresh import is final. A
  failed import sends no operation and leaves nothing cached; a successful one is cached.
\<close>

theorem with_session_cold_imports_once:
  assumes "held st secret = None" and "import_session restore secret w = (imported, w1)"
  shows "\<exists>st'. (case imported of
      Inl message \<Rightarrow>
        with_session restore secret operation st w = (Inl (Import message), st', w1) \<and>
        held st' secret = None
    | Inr session \<Rightarrow>
        with_session restore secret operation st w =
          (case operation session w1 of
             (Inl e, w2) \<Rightarrow> (Inl (Op e), st', w2)
           | (Inr v, w2) \<Rightarrow> (Inr v, st', w2)) \<and>
        (\<exists>stamp. held st' secret = Some (session, stamp)))"
  by (rule with_session_cold_spec [OF assms])

theorem with_session_cold_imports_once_witness:
  "\<exists>st'. with_session (\<lambda>secret w. (Inr 9, w + 100)) ''s'' (\<lambda>session w. (Inr (session + w), w + 1))
       (store_new 4 :: nat session_store) (10::nat) = (Inr 119, st', 111)"
proof -
  have "held (store_new 4 :: nat session_store) ''s'' = None"
    by (simp add: held_def store_new_def lru_new_def)
  from with_session_cold_imports_once [OF this,
      where restore = "\<lambda>secret w. (Inr 9, w + 100)" and w = "10::nat" and imported = "Inr 9" and ?w1.0 = 110
      and operation = "\<lambda>session w. (Inr (session + w), w + 1)"]
  show ?thesis by (auto simp: import_session_def)
qed

lemma rejected_prefix: "prefix SESSION_REJECTED (rejected e detail)"
  by (simp add: rejected_def)

lemma no_marker_prefix: "verb \<noteq> [] \<Longrightarrow> hd verb \<noteq> CHR ''S'' \<Longrightarrow> \<not> prefix SESSION_REJECTED (verb @ rest)"
  by (cases verb) (auto simp: SESSION_REJECTED_def)

lemma rejected_wording: "contains (rejected e detail) ''session''" "contains (rejected e detail) ''invalid''"
  by (simp_all add: rejected_def SESSION_REJECTED_def)

lemma is_session_rejected_typed:
  "is_session_rejected e \<longleftrightarrow> (\<exists>d x. from_sdk_error e = AuthenticationFailed d x) \<or>
     (\<exists>d. from_sdk_error e = Server 401 d \<or> from_sdk_error e = Server 403 d)"
  by (auto simp: is_session_rejected_def from_error_defs split: pubky_error.splits request_error.splits)

text \<open>
  C21 (error). The marker \<^verbatim>\<open>Session rejected\<close> opens exactly the messages of failures that a new
  sign-in fixes, and the typed interface reports exactly these as authentication failures or as the
  server's 401 or 403. For an operation error under any verb that does not itself begin with an S, the
  message begins with the marker iff the typed error is one of these; for an import, iff the restore failed
  with one. A marked message still contains the words older consumers look for.
\<close>

theorem rejection_marker_exact:
  assumes "verb \<noteq> []" and "hd verb \<noteq> CHR ''S''"
    and "typed \<longleftrightarrow> (\<exists>d x. from_sdk_error e = AuthenticationFailed d x) \<or>
      (\<exists>d. from_sdk_error e = Server 401 d \<or> from_sdk_error e = Server 403 d)"
  shows "(prefix SESSION_REJECTED (into_message (Op e) verb) \<longleftrightarrow> typed) \<and>
         (typed \<longrightarrow>
            contains (into_message (Op e) verb) ''session'' \<and> contains (into_message (Op e) verb) ''invalid'') \<and>
         (restore secret w = (Inl e, w') \<longrightarrow>
            (\<exists>m. import_session restore secret w = (Inl m, w') \<and>
                 (prefix SESSION_REJECTED m \<longleftrightarrow> typed)))"
  using assms(1,2) no_marker_prefix [of verb] no_marker_prefix [of "''Failed to import session: ''"]
  unfolding assms(3) is_session_rejected_typed [symmetric]
  by (simp add: rejected_prefix rejected_wording import_session_def)

theorem rejection_marker_exact_witness:
  "prefix SESSION_REJECTED (into_message (Op refused) ''Failed to put'') \<and>
   \<not> prefix SESSION_REJECTED (into_message (Op (refused\<lparr>variant := Request (ReqServer 507 ''full'')\<rparr>)) ''Failed to put'')"
proof -
  let ?busy = "refused\<lparr>variant := Request (ReqServer 507 ''full'')\<rparr>"
  have "is_session_rejected refused" and "\<not> is_session_rejected ?busy"
    by (simp_all add: is_session_rejected_def refused_def)
  then show ?thesis
    using rejection_marker_exact [of "''Failed to put''" True refused "\<lambda>_ w. (Inr (), w)" "''s''" "()" "()"]
      rejection_marker_exact [of "''Failed to put''" False ?busy "\<lambda>_ w. (Inr (), w)" "''s''" "()" "()"]
    unfolding is_session_rejected_typed [symmetric] by (simp del: into_message.simps)
qed

lemma word_plus_two_gt:
  fixes stale now :: u64
  assumes "stale \<le> now" and "unat now + 2 < 2 ^ 64"
  shows "stale < now + 1 + 1"
proof -
  have "unat (now + 1 + 1) = unat now + 2"
    using assms(2) by (simp add: unat_word_ariths)
  with assms(1) show ?thesis by (simp add: word_less_nat_alt word_le_nat_alt)
qed

text \<open>
  C7 (safety). Two requests refused under the same cached session exchange the grant once: after the
  first re-mint for the stamp both saw, a second re-mint for that stamp returns the session the first
  one minted and makes no exchange, whatever its own mint would have done. A re-mint for the stamp of
  the replacement does mint again.
\<close>

theorem shared_rejection_remints_once:
  assumes "held st secret = Some (v0, stale)" and "stale \<le> clock (store_lru st)"
    and "unat (clock (store_lru st)) + 2 < 2 ^ 64"
    and "mint w = (Inr v, w1)"
  shows "\<exists>st1 stamp st2. remint st secret (Some stale) mint w = (Inr v, st1, w1) \<and>
           remint st1 secret (Some stale) mint' w1 = (Inr v, st2, w1) \<and>
           held st1 secret = Some (v, stamp) \<and>
           (mint' w1 = (Inr v', w2) \<longrightarrow> (\<exists>st3. remint st1 secret (Some stamp) mint' w1 = (Inr v', st3, w2)))"
proof -
  define st0 where "st0 = forget (snd (cached (enter_flight st secret) secret)) secret"
  define st1 where "st1 = leave_flight (remember st0 secret v) secret"
  define stamp where "stamp = clock (store_lru st) + 1 + 1"
  have r1: "remint st secret (Some stale) mint w = (Inr v, st1, w1)"
    using remint_stale [of st secret "Some stale" mint w] assms(1,4) by (simp add: st0_def st1_def)
  have h: "held st1 secret = Some (v, stamp)"
    by (simp add: st1_def st0_def stamp_def)
  have "stale < stamp"
    using word_plus_two_gt [OF assms(2,3)] by (simp add: stamp_def)
  then have r2: "\<exists>st2. remint st1 secret (Some stale) mint' w1 = (Inr v, st2, w1)"
    using remint_newer [OF h, of "Some stale" mint' w1] by auto
  have r3: "mint' w1 = (Inr v', w2) \<Longrightarrow> \<exists>st3. remint st1 secret (Some stamp) mint' w1 = (Inr v', st3, w2)"
    using remint_own_stamp [OF h, of mint' w1] by auto
  show ?thesis using r1 r2 r3 h by blast
qed

theorem shared_rejection_remints_once_witness:
  "\<exists>st1 st2. remint (remember (store_new 4) ''s'' (5::nat)) ''s'' (Some 1) (\<lambda>w. (Inr 6, w + 1)) (0::int) =
       (Inr 6, st1, 1) \<and>
     remint st1 ''s'' (Some 1) (\<lambda>w. (Inr 7, w + 1)) (1::int) = (Inr 6, st2, 1)"
proof -
  have "held (remember (store_new 4) ''s'' (5::nat)) ''s'' = Some (5, 1)"
    and "clock (store_lru (remember (store_new 4) ''s'' (5::nat))) = 1"
    by (simp_all add: store_new_def lru_new_def)
  from shared_rejection_remints_once [OF this(1), of "\<lambda>w. (Inr 6, w + 1)" "0::int" 6 1 "\<lambda>w. (Inr 7, w + 1)" 7 2] this(2)
  show ?thesis by auto
qed

text \<open>
  With nothing cached and no other call minting the secret, \<^verbatim>\<open>get_or_mint\<close> mints
  once; afterwards the lock map is as it was, whether the mint failed or not. A failed mint caches
  nothing. After a successful one the next \<^verbatim>\<open>get_or_mint\<close> for the secret returns the same session and
  mints nothing.
\<close>

theorem get_or_mint_caches_and_releases:
  fixes mint :: "'w \<Rightarrow> 's result \<times> 'w"
  assumes "held st secret = None" and "hm_get (minting st) secret = None" and "mint w = (r, w1)"
  shows "\<exists>st'. get_or_mint st secret mint w = (r, st', w1) \<and> minting st' = minting st \<and>
           (case r of
              Inl _ \<Rightarrow> held st' secret = None
            | Inr v \<Rightarrow> \<forall>(mint' :: 'w \<Rightarrow> 's result \<times> 'w) w2. get_or_mint st' secret mint' w2 = (Inr v, snd (cached st' secret), w2))"
proof -
  define st0 where "st0 = snd (cached (enter_flight (snd (cached st secret)) secret) secret)"
  have m: "minting (leave_flight st2 secret) = minting st" if "minting st2 = minting st0" for st2
    using leave_flight_alone [of "snd (cached st secret)" secret st2] assms(2) that by (simp add: st0_def)
  show ?thesis
  proof (cases r)
    case (Inl e)
    then show ?thesis
      using get_or_mint_miss [OF assms(1), of mint w] assms(1,3) m [of st0]
      by (auto simp: st0_def)
  next
    case (Inr v)
    let ?st = "leave_flight (remember st0 secret v) secret"
    have "held ?st secret = Some (v, clock (store_lru st0) + 1)" by simp
    then have hit: "get_or_mint ?st secret mint' w2 = (Inr v, snd (cached ?st secret), w2)"
      for mint' :: "'w \<Rightarrow> 's result \<times> 'w" and w2
      by (rule get_or_mint_hit)
    have "get_or_mint st secret mint w = (r, ?st, w1)"
      using get_or_mint_miss [OF assms(1), of mint w] assms(3) Inr by (simp add: st0_def)
    moreover have "minting ?st = minting st" by (rule m) simp
    ultimately show ?thesis using hit Inr by auto
  qed
qed

theorem get_or_mint_caches_and_releases_witness:
  "\<exists>st'. get_or_mint (store_new 4 :: nat session_store) ''s'' (\<lambda>w. (Inl ''boom'', w + 1)) (0::nat) =
     (Inl ''boom'', st', 1) \<and> minting st' = [] \<and> held st' ''s'' = None"
  using get_or_mint_caches_and_releases [of "store_new 4 :: nat session_store" "''s''"
      "\<lambda>w. (Inl ''boom'', w + 1)" "0::nat" "Inl ''boom''" 1]
  by (simp add: held_def store_new_def lru_new_def)

lemma forget_grant_from_held:
  assumes "\<And>g w. fst (grant_id g w) = gid_of g"
  shows "held (fst (forget_grant_from as_grant grant_id gid vs st w)) k =
    (if \<exists>v g. (k, v) \<in> set vs \<and> as_grant v = Some g \<and> gid_of g = gid then None else held st k)"
proof (induction vs arbitrary: st w)
  case Nil
  then show ?case by simp
next
  case (Cons x vs)
  obtain secret session where x: "x = (secret, session)" by (cases x)
  show ?case
  proof (cases "as_grant session")
    case None
    with x Cons show ?thesis by auto
  next
    case (Some g)
    obtain i w' where gi: "grant_id g w = (i, w')" by (cases "grant_id g w")
    then have "i = gid_of g" using assms [of g w] by simp
    with x Cons Some gi show ?thesis by auto
  qed
qed

lemma store_values_held:
  assumes "hm_ok (entries (store_lru st))"
  shows "(k, v) \<in> set (store_values st) \<longleftrightarrow> (\<exists>stamp. held st k = Some (v, stamp))"
proof -
  have "(k, v) \<in> set (store_values st) \<longleftrightarrow> (\<exists>e. (k, e) \<in> set (entries (store_lru st)) \<and> entry_value e = v)"
    by (force simp: store_values_def)
  then show ?thesis
    using assms by (auto simp: held_def hm_get_iff)
qed

text \<open>
  C32 (safety). After a grant is revoked, \<^verbatim>\<open>forget_grant\<close> drops exactly the cached sessions minted
  from it: no session of that grant can be handed out again, and every other cached session, with its
  stamp, is untouched. The hypothesis on the SDK is that the id of a grant does not change.
\<close>

theorem forget_grant_drops_exactly_the_grant:
  assumes "hm_ok (entries (store_lru st))"
    and "\<And>g w. fst (grant_id g w) = gid_of g"
  shows "held (fst (forget_grant as_grant grant_id gid st w)) k =
    (case held st k of
       Some (v, stamp) \<Rightarrow>
         if map_option gid_of (as_grant v) = Some gid then None else Some (v, stamp)
     | None \<Rightarrow> None)"
  unfolding forget_grant_def forget_grant_from_held [where gid_of = gid_of, OF assms(2)]
    store_values_held [OF assms(1)]
  by (auto split: option.splits)

theorem forget_grant_drops_exactly_the_grant_witness:
  "held (fst (forget_grant (\<lambda>v::nat. if v < 10 then Some v else None) (\<lambda>g w. (show_nat g, w)) ''5''
     (remember (store_new 4) ''s'' 5) ())) ''s'' = None"
proof -
  have ok: "hm_ok (entries (store_lru (remember (store_new 4) ''s'' (5::nat))))"
    by (simp add: remember_def store_new_def lru_insert_def tick_def trim_to_def lru_new_def Let_def hm_insert_def
        trim_entries.simps)
  have "held (remember (store_new 4) ''s'' (5::nat)) ''s'' = Some (5, 1)"
    by (simp add: store_new_def lru_new_def)
  moreover have "show_nat 5 = ''5''"
    by code_simp
  ultimately show ?thesis
    using forget_grant_drops_exactly_the_grant [OF ok, where grant_id = "\<lambda>g w. (show_nat g, w)" and gid_of = show_nat
        and as_grant = "\<lambda>v. if v < 10 then Some v else None" and gid = "''5''" and w = "()" and k = "''s''"]
    by simp
qed

end
