(* ===== verification/Single_Flight.thy ===== *)
theory Single_Flight
  imports Session_Store
begin

section \<open>Concurrent callers of the session store\<close>

text \<open>
  Models how calls of \<^verbatim>\<open>get_or_mint\<close> and \<^verbatim>\<open>remint\<close> interleave in \<^verbatim>\<open>src/session_cache.rs\<close>. Every FFI
  export blocks on its caller's thread, so any number of calls run at once. The atomic steps are the
  critical sections of the two \<^verbatim>\<open>std\<close> mutexes (the LRU and the lock map), the acquisition and release
  of a secret's asynchronous lock, the end of a mint, and the drop of a call's clone of the lock,
  which happens after the guard of the lock map is released (Rust drops the later-declared guard
  first).

  Locks are numbered as they are allocated by \<^verbatim>\<open>or_default()\<close>; \<^verbatim>\<open>Arc::strong_count\<close> is the number of
  references that the lock map and the calls hold. The asynchronous mutex itself is \<^verbatim>\<open>tokio\<close> code: who
  gets it is the parameter \<open>grant\<close>, and what the store relies on is \<open>mutex_contract\<close>.
\<close>

datatype call = GetOrMint | Remint u64

datatype 's pc =
    Begin
  | Enter
  | Queued nat
  | Holding nat
  | Missed nat
  | Minting nat
  | Unlocking nat "'s result"
  | Leaving nat "'s result"
  | Dropping nat "'s result"
  | Done "'s result"

record 's task =
  task_secret :: string
  task_call :: call
  task_pc :: "'s pc"

record 's system =
  sys_lru :: "'s lru"
  locks :: "nat hmap"
  next_lock :: nat
  holder :: "nat \<Rightarrow> nat option"
  tasks :: "'s task list"

definition init_system :: "nat \<Rightarrow> 's system" where
  "init_system cap =
     \<lparr>sys_lru = lru_new cap, locks = [], next_lock = 0, holder = (\<lambda>_. None), tasks = []\<rparr>"

fun pc_lock :: "'s pc \<Rightarrow> nat option" where
  "pc_lock (Queued l) = Some l"
| "pc_lock (Holding l) = Some l"
| "pc_lock (Missed l) = Some l"
| "pc_lock (Minting l) = Some l"
| "pc_lock (Unlocking l r) = Some l"
| "pc_lock (Leaving l r) = Some l"
| "pc_lock (Dropping l r) = Some l"
| "pc_lock _ = None"

definition strong_count :: "'s system \<Rightarrow> nat \<Rightarrow> nat" where
  "strong_count s l =
     length (filter (\<lambda>x. snd x = l) (locks s)) +
     length (filter (\<lambda>t. pc_lock (task_pc t) = Some l) (tasks s))"

definition waiting :: "'s system \<Rightarrow> nat \<Rightarrow> nat set" where
  "waiting s l = {i. i < length (tasks s) \<and> task_pc (tasks s ! i) = Queued l}"

text \<open>The look into the cache that a call makes once it holds the lock.\<close>

definition look_again :: "'s lru \<Rightarrow> string \<Rightarrow> call \<Rightarrow> 's option \<times> 's lru" where
  "look_again c secret k =
     (case k of
        GetOrMint \<Rightarrow> (case lru_get c secret of (r, c) \<Rightarrow> (map_option fst r, c))
      | Remint stale \<Rightarrow> minted_after c secret stale)"

text \<open>A call asks for its secret's lock: \<^verbatim>\<open>remint\<close> at once, \<^verbatim>\<open>get_or_mint\<close> after its first look.\<close>

definition asks_lock :: "'s task \<Rightarrow> bool" where
  "asks_lock t \<longleftrightarrow> task_pc t = Enter \<or> task_pc t = Begin \<and> task_call t \<noteq> GetOrMint"

definition set_pc :: "'s system \<Rightarrow> nat \<Rightarrow> 's pc \<Rightarrow> 's system" where
  "set_pc s i p = s\<lparr>tasks := (tasks s)[i := (tasks s ! i)\<lparr>task_pc := p\<rparr>]\<rparr>"

text \<open>
  What \<^verbatim>\<open>tokio::sync::Mutex\<close> documents: it is granted only while nobody holds it, to someone who
  waits for it, and a free lock with waiters is granted to one of them.
\<close>

definition mutex_contract :: "(nat option \<Rightarrow> nat set \<Rightarrow> nat \<Rightarrow> bool) \<Rightarrow> bool" where
  "mutex_contract grant \<longleftrightarrow>
     (\<forall>h W i. grant h W i \<longrightarrow> h = None \<and> i \<in> W) \<and>
     (\<forall>W. finite W \<and> W \<noteq> {} \<longrightarrow> (\<exists>i. grant None W i))"

text \<open>\<open>task_step grant i s s'\<close>: call \<open>i\<close> makes one atomic step.\<close>

inductive task_step :: "(nat option \<Rightarrow> nat set \<Rightarrow> nat \<Rightarrow> bool) \<Rightarrow> nat \<Rightarrow> 's system \<Rightarrow> 's system \<Rightarrow> bool"
  for grant i s where
  first_hit: "i < length (tasks s) \<Longrightarrow> task_pc (tasks s ! i) = Begin \<Longrightarrow>
    task_call (tasks s ! i) = GetOrMint \<Longrightarrow>
    lru_get (sys_lru s) (task_secret (tasks s ! i)) = (Some (v, stamp), c) \<Longrightarrow>
    task_step grant i s (set_pc (s\<lparr>sys_lru := c\<rparr>) i (Done (Inr v)))"
| first_miss: "i < length (tasks s) \<Longrightarrow> task_pc (tasks s ! i) = Begin \<Longrightarrow>
    task_call (tasks s ! i) = GetOrMint \<Longrightarrow>
    lru_get (sys_lru s) (task_secret (tasks s ! i)) = (None, c) \<Longrightarrow>
    task_step grant i s (set_pc (s\<lparr>sys_lru := c\<rparr>) i Enter)"
| join_lock: "i < length (tasks s) \<Longrightarrow> asks_lock (tasks s ! i) \<Longrightarrow>
    hm_get (locks s) (task_secret (tasks s ! i)) = Some l \<Longrightarrow>
    task_step grant i s (set_pc s i (Queued l))"
| new_lock: "i < length (tasks s) \<Longrightarrow> asks_lock (tasks s ! i) \<Longrightarrow>
    hm_get (locks s) (task_secret (tasks s ! i)) = None \<Longrightarrow>
    task_step grant i s
      (set_pc (s\<lparr>locks := hm_insert (task_secret (tasks s ! i)) (next_lock s) (locks s),
                 next_lock := Suc (next_lock s)\<rparr>) i (Queued (next_lock s)))"
| acquire: "i < length (tasks s) \<Longrightarrow> task_pc (tasks s ! i) = Queued l \<Longrightarrow>
    grant (holder s l) (waiting s l) i \<Longrightarrow>
    task_step grant i s (set_pc (s\<lparr>holder := (holder s)(l := Some i)\<rparr>) i (Holding l))"
| found: "i < length (tasks s) \<Longrightarrow> task_pc (tasks s ! i) = Holding l \<Longrightarrow>
    look_again (sys_lru s) (task_secret (tasks s ! i)) (task_call (tasks s ! i)) = (Some v, c) \<Longrightarrow>
    task_step grant i s (set_pc (s\<lparr>sys_lru := c\<rparr>) i (Unlocking l (Inr v)))"
| missed: "i < length (tasks s) \<Longrightarrow> task_pc (tasks s ! i) = Holding l \<Longrightarrow>
    look_again (sys_lru s) (task_secret (tasks s ! i)) (task_call (tasks s ! i)) = (None, c) \<Longrightarrow>
    task_step grant i s
      (set_pc (s\<lparr>sys_lru := c\<rparr>) i (if task_call (tasks s ! i) = GetOrMint then Minting l else Missed l))"
| forget_stale: "i < length (tasks s) \<Longrightarrow> task_pc (tasks s ! i) = Missed l \<Longrightarrow>
    task_step grant i s
      (set_pc (s\<lparr>sys_lru := lru_forget (sys_lru s) (task_secret (tasks s ! i))\<rparr>) i (Minting l))"
| mint_failed: "i < length (tasks s) \<Longrightarrow> task_pc (tasks s ! i) = Minting l \<Longrightarrow>
    task_step grant i s (set_pc s i (Unlocking l (Inl message)))"
| mint_done: "i < length (tasks s) \<Longrightarrow> task_pc (tasks s ! i) = Minting l \<Longrightarrow>
    task_step grant i s
      (set_pc (s\<lparr>sys_lru := lru_insert (sys_lru s) (task_secret (tasks s ! i)) v\<rparr>) i
        (Unlocking l (Inr v)))"
| unlock: "i < length (tasks s) \<Longrightarrow> task_pc (tasks s ! i) = Unlocking l r \<Longrightarrow>
    task_step grant i s (set_pc (s\<lparr>holder := (holder s)(l := None)\<rparr>) i (Leaving l r))"
| leave_last: "i < length (tasks s) \<Longrightarrow> task_pc (tasks s ! i) = Leaving l r \<Longrightarrow>
    strong_count s l = 2 \<Longrightarrow>
    task_step grant i s
      (set_pc (s\<lparr>locks := hm_remove (task_secret (tasks s ! i)) (locks s)\<rparr>) i (Dropping l r))"
| leave_shared: "i < length (tasks s) \<Longrightarrow> task_pc (tasks s ! i) = Leaving l r \<Longrightarrow>
    strong_count s l \<noteq> 2 \<Longrightarrow>
    task_step grant i s (set_pc s i (Dropping l r))"
| drop_clone: "i < length (tasks s) \<Longrightarrow> task_pc (tasks s ! i) = Dropping l r \<Longrightarrow>
    task_step grant i s (set_pc s i (Done r))"

text \<open>
  A step of the whole system: a call steps, a new call arrives, or the cache is changed by a call
  that takes no mint lock (\<^verbatim>\<open>cached\<close>, \<^verbatim>\<open>forget\<close>, \<^verbatim>\<open>clear\<close>, \<^verbatim>\<open>set_capacity\<close>).
\<close>

inductive sys_step :: "(nat option \<Rightarrow> nat set \<Rightarrow> nat \<Rightarrow> bool) \<Rightarrow> 's system \<Rightarrow> 's system \<Rightarrow> bool"
  for grant where
  task: "task_step grant i s s' \<Longrightarrow> sys_step grant s s'"
| arrive: "sys_step grant s
    (s\<lparr>tasks := tasks s @ [\<lparr>task_secret = secret, task_call = k, task_pc = Begin\<rparr>]\<rparr>)"
| touch: "sys_step grant s (s\<lparr>sys_lru := snd (lru_get (sys_lru s) secret)\<rparr>)"
| forget_one: "sys_step grant s (s\<lparr>sys_lru := lru_forget (sys_lru s) secret\<rparr>)"
| clear_all: "sys_step grant s (s\<lparr>sys_lru := lru_clear (sys_lru s)\<rparr>)"
| resize: "sys_step grant s (s\<lparr>sys_lru := lru_set_capacity (sys_lru s) cap\<rparr>)"

inductive reachable :: "(nat option \<Rightarrow> nat set \<Rightarrow> nat \<Rightarrow> bool) \<Rightarrow> 's system \<Rightarrow> bool" for grant where
  init: "reachable grant (init_system cap)"
| step: "reachable grant s \<Longrightarrow> sys_step grant s s' \<Longrightarrow> reachable grant s'"

subsection \<open>The invariant\<close>

text \<open>The calls that rely on the lock map, and the calls that hold their lock.\<close>

fun engaged :: "'s pc \<Rightarrow> nat option" where
  "engaged (Dropping l r) = None"
| "engaged p = pc_lock p"

fun inside :: "'s pc \<Rightarrow> nat option" where
  "inside (Holding l) = Some l"
| "inside (Missed l) = Some l"
| "inside (Minting l) = Some l"
| "inside (Unlocking l r) = Some l"
| "inside _ = None"

text \<open>
  The lock map names distinct, allocated locks; a call between cloning its lock and leaving holds
  the very lock the map has for its secret; the holder of a lock is the one call inside it.
\<close>

definition flight_inv :: "'s system \<Rightarrow> bool" where
  "flight_inv s \<longleftrightarrow>
     hm_ok (locks s) \<and> distinct (map snd (locks s)) \<and> (\<forall>x\<in>set (locks s). snd x < next_lock s) \<and>
     (\<forall>i<length (tasks s). \<forall>l. pc_lock (task_pc (tasks s ! i)) = Some l \<longrightarrow> l < next_lock s) \<and>
     (\<forall>i<length (tasks s). \<forall>l. engaged (task_pc (tasks s ! i)) = Some l \<longrightarrow>
        hm_get (locks s) (task_secret (tasks s ! i)) = Some l) \<and>
     (\<forall>l i. holder s l = Some i \<longleftrightarrow> i < length (tasks s) \<and> inside (task_pc (tasks s ! i)) = Some l)"

lemma set_pc_simps [simp]:
  "sys_lru (set_pc s i p) = sys_lru s" "locks (set_pc s i p) = locks s"
  "next_lock (set_pc s i p) = next_lock s" "holder (set_pc s i p) = holder s"
  "tasks (set_pc s i p) = (tasks s)[i := (tasks s ! i)\<lparr>task_pc := p\<rparr>]"
  by (simp_all add: set_pc_def)

lemma engaged_pc_lock: "engaged p = Some l \<Longrightarrow> pc_lock p = Some l"
  by (cases p) auto

lemma inside_engaged: "inside p = Some l \<Longrightarrow> engaged p = Some l"
  by (cases p) auto

lemma asks_lock_outside [simp]:
  "asks_lock t \<Longrightarrow> pc_lock (task_pc t) = None" "asks_lock t \<Longrightarrow> engaged (task_pc t) = None"
  "asks_lock t \<Longrightarrow> inside (task_pc t) = None"
  by (auto simp: asks_lock_def)

lemma flight_inv_engaged:
  "flight_inv s \<Longrightarrow> i < length (tasks s) \<Longrightarrow> engaged (task_pc (tasks s ! i)) = Some l \<Longrightarrow>
   hm_get (locks s) (task_secret (tasks s ! i)) = Some l"
  by (simp add: flight_inv_def)

lemma flight_inv_alloc:
  "flight_inv s \<Longrightarrow> i < length (tasks s) \<Longrightarrow> pc_lock (task_pc (tasks s ! i)) = Some l \<Longrightarrow>
   l < next_lock s"
  by (simp add: flight_inv_def)

lemma flight_inv_holder:
  "flight_inv s \<Longrightarrow>
   holder s l = Some i \<longleftrightarrow> i < length (tasks s) \<and> inside (task_pc (tasks s ! i)) = Some l"
  by (simp add: flight_inv_def)

lemma flight_inv_init: "flight_inv (init_system cap)"
  by (simp add: flight_inv_def init_system_def)

lemma flight_inv_lru: "flight_inv (s\<lparr>sys_lru := c\<rparr>) = flight_inv s"
  by (simp add: flight_inv_def)

text \<open>One call moves to \<open>p\<close>; the lock map stays.\<close>

lemma flight_inv_move:
  assumes inv: "flight_inv s" and i: "i < length (tasks s)"
    and s': "tasks s' = (tasks s)[i := (tasks s ! i)\<lparr>task_pc := p\<rparr>]"
      "locks s' = locks s" "next_lock s' = next_lock s"
    and alloc: "\<And>l. pc_lock p = Some l \<Longrightarrow> l < next_lock s"
    and eng: "\<And>l. engaged p = Some l \<Longrightarrow> hm_get (locks s) (task_secret (tasks s ! i)) = Some l"
    and hold: "\<And>l j. holder s' l = Some j \<longleftrightarrow> (if j = i then inside p = Some l else holder s l = Some j)"
  shows "flight_inv s'"
proof -
  have "task_secret (tasks s' ! j) = task_secret (tasks s ! j)" if "j < length (tasks s)" for j
    using that i s' by (simp add: nth_list_update)
  then show ?thesis
    using inv i alloc eng unfolding flight_inv_def s'
    by (simp add: hold nth_list_update)
qed

lemma flight_inv_keep_holder:
  assumes "flight_inv s" and "i < length (tasks s)"
    and "pc_lock p = None \<or> pc_lock p = pc_lock (task_pc (tasks s ! i))"
    and "engaged p = None \<or> engaged p = engaged (task_pc (tasks s ! i))"
    and "inside p = inside (task_pc (tasks s ! i))"
  shows "flight_inv (set_pc (s\<lparr>sys_lru := c\<rparr>) i p)"
  using assms(1,2)
proof (rule flight_inv_move)
  show "\<And>l. pc_lock p = Some l \<Longrightarrow> l < next_lock s"
    using assms(1-3) unfolding flight_inv_def by (metis option.distinct(1))
  show "\<And>l. engaged p = Some l \<Longrightarrow> hm_get (locks s) (task_secret (tasks s ! i)) = Some l"
    using assms(1,2,4) unfolding flight_inv_def by (metis option.distinct(1))
  show "\<And>l j. holder (set_pc (s\<lparr>sys_lru := c\<rparr>) i p) l = Some j \<longleftrightarrow>
      (if j = i then inside p = Some l else holder s l = Some j)"
    using assms by (auto simp: flight_inv_def)
qed simp_all

lemma strong_count_2:
  assumes inv: "flight_inv s" and i: "i < length (tasks s)"
    and l: "engaged (task_pc (tasks s ! i)) = Some l" and two: "strong_count s l = 2"
    and j: "j < length (tasks s)" "pc_lock (task_pc (tasks s ! j)) = Some l"
  shows "j = i"
proof (rule ccontr)
  assume "j \<noteq> i"
  let ?P = "\<lambda>t. pc_lock (task_pc t) = Some l"
  have "(task_secret (tasks s ! i), l) \<in> set (locks s)"
    using inv i l by (auto simp: flight_inv_def intro: hm_get_in_set)
  then have "1 \<le> length (filter (\<lambda>x. snd x = l) (locks s))"
    by (force simp: Suc_le_eq filter_empty_conv)
  moreover have "{i, j} \<subseteq> {n. n < length (tasks s) \<and> ?P (tasks s ! n)}"
    using i j l engaged_pc_lock by auto
  then have "card {i, j} \<le> length (filter ?P (tasks s))"
    by (simp only: length_filter_conv_card) (rule card_mono, auto)
  ultimately show False
    using two \<open>j \<noteq> i\<close> by (simp add: strong_count_def)
qed

lemma flight_inv_leave_last:
  assumes inv: "flight_inv s" and i: "i < length (tasks s)"
    and p: "task_pc (tasks s ! i) = Leaving l r" and two: "strong_count s l = 2"
  shows "flight_inv (set_pc (s\<lparr>locks := hm_remove (task_secret (tasks s ! i)) (locks s)\<rparr>) i (Dropping l r))"
proof -
  let ?k = "task_secret (tasks s ! i)"
  have k: "hm_get (locks s) ?k = Some l"
    using inv i p by (auto simp: flight_inv_def)
  have other: "task_secret (tasks s ! j) \<noteq> ?k"
    if j: "j < length (tasks s)" "j \<noteq> i" and m: "engaged (task_pc (tasks s ! j)) = Some m" for j m
  proof
    assume "task_secret (tasks s ! j) = ?k"
    then have "m = l" using flight_inv_engaged [OF inv j(1) m] k by simp
    then show False
      using strong_count_2 [OF inv i _ two j(1)] m p j(2) by (auto dest: engaged_pc_lock)
  qed
  have "hm_ok (hm_remove ?k (locks s))" and "distinct (map snd (hm_remove ?k (locks s)))"
    and "\<forall>x\<in>set (hm_remove ?k (locks s)). snd x < next_lock s"
    using inv by (auto simp: flight_inv_def hm_remove_filter distinct_map_filter)
  then show ?thesis
    using inv i p unfolding flight_inv_def
    by (auto simp: nth_list_update dest: other)
qed

lemma flight_inv_new_lock:
  assumes inv: "flight_inv s" and i: "i < length (tasks s)"
    and p: "asks_lock (tasks s ! i)"
    and none: "hm_get (locks s) (task_secret (tasks s ! i)) = None"
  shows "flight_inv (set_pc (s\<lparr>locks := hm_insert (task_secret (tasks s ! i)) (next_lock s) (locks s),
                 next_lock := Suc (next_lock s)\<rparr>) i (Queued (next_lock s)))"
proof -
  let ?k = "task_secret (tasks s ! i)"
  have "hm_insert ?k (next_lock s) (locks s) = locks s @ [(?k, next_lock s)]"
    using none by (intro hm_insert_new) (simp add: hm_contains_def)
  moreover have "distinct (map snd (locks s @ [(?k, next_lock s)]))"
    using inv by (auto simp: flight_inv_def)
  ultimately have "distinct (map snd (hm_insert ?k (next_lock s) (locks s)))"
    and "\<forall>x\<in>set (hm_insert ?k (next_lock s) (locks s)). snd x < Suc (next_lock s)"
    using inv by (auto simp: flight_inv_def less_Suc_eq)
  moreover have "hm_get (locks s) (task_secret (tasks s ! j)) = Some m \<Longrightarrow> task_secret (tasks s ! j) \<noteq> ?k"
    for j m using none by auto
  ultimately show ?thesis
    using inv i p none
    by (auto simp: flight_inv_def nth_list_update less_Suc_eq dest: engaged_pc_lock)
qed

lemma task_step_inv:
  assumes "mutex_contract grant" and "task_step grant i s s'" and "flight_inv s"
  shows "flight_inv s'"
  using assms(2)
proof cases
  case (acquire l)
  then have free: "holder s l = None"
    using assms(1) by (auto simp: mutex_contract_def)
  show ?thesis
    unfolding acquire(1) using assms(3) acquire(2)
  proof (rule flight_inv_move)
    show "holder (set_pc (s\<lparr>holder := (holder s)(l \<mapsto> i)\<rparr>) i (Holding l)) m = Some j \<longleftrightarrow>
        (if j = i then inside (Holding l) = Some m else holder s m = Some j)" for m j
      using free acquire(2,3) flight_inv_holder [OF assms(3), of m i] by auto
  qed (use assms(3) acquire in \<open>auto intro: flight_inv_engaged flight_inv_alloc\<close>)
next
  case (unlock l r)
  then have h: "holder s l = Some i"
    using assms(3) by (auto simp: flight_inv_def)
  show ?thesis
    unfolding unlock(1) using assms(3) unlock(2)
  proof (rule flight_inv_move)
    show "holder (set_pc (s\<lparr>holder := (holder s)(l := None)\<rparr>) i (Leaving l r)) m = Some j \<longleftrightarrow>
        (if j = i then inside (Leaving l r) = Some m else holder s m = Some j)" for m j
      using h unlock(2,3) flight_inv_holder [OF assms(3), of m i] by auto
  qed (use assms(3) unlock in \<open>auto intro: flight_inv_engaged flight_inv_alloc\<close>)
next
  case (join_lock l)
  then have "l < next_lock s"
    using assms(3) hm_get_in_set [OF join_lock(4)] by (force simp: flight_inv_def)
  then show ?thesis
    unfolding join_lock(1) using join_lock flight_inv_holder [OF assms(3), of _ i]
    by (intro flight_inv_move [OF assms(3) join_lock(2), where p = "Queued l"]) auto
qed (use assms(3) flight_inv_keep_holder [of s i] flight_inv_keep_holder [of s i _ "sys_lru s"]
      flight_inv_new_lock flight_inv_leave_last in auto)

lemma sys_step_inv:
  assumes "mutex_contract grant" and "sys_step grant s s'" and "flight_inv s"
  shows "flight_inv s'"
  using assms(2)
proof cases
  case (arrive secret k)
  have "holder s l \<noteq> Some (length (tasks s))" for l
    using flight_inv_holder [OF assms(3)] by simp
  then show ?thesis
    using assms(3) unfolding arrive flight_inv_def
    by (auto simp: nth_append less_Suc_eq)
qed (use assms task_step_inv in \<open>auto simp: flight_inv_lru\<close>)

lemma reachable_inv: "mutex_contract grant \<Longrightarrow> reachable grant s \<Longrightarrow> flight_inv s"
  by (erule reachable.induct) (auto simp: flight_inv_init intro: sys_step_inv)

lemma inside_exclusive:
  assumes "mutex_contract grant" and "reachable grant s"
    and "i < length (tasks s)" and "j < length (tasks s)"
    and "inside (task_pc (tasks s ! i)) = Some l" and "inside (task_pc (tasks s ! j)) = Some m"
    and "task_secret (tasks s ! i) = task_secret (tasks s ! j)"
  shows "i = j"
proof -
  note inv = reachable_inv [OF assms(1,2)]
  have "l = m"
    using flight_inv_engaged [OF inv assms(3) inside_engaged [OF assms(5)]]
      flight_inv_engaged [OF inv assms(4) inside_engaged [OF assms(6)]] assms(7) by simp
  then show ?thesis
    using flight_inv_holder [OF inv, of l i] flight_inv_holder [OF inv, of l j] assms by simp
qed

subsection \<open>Progress\<close>

fun rank :: "call \<Rightarrow> 's pc \<Rightarrow> nat" where
  "rank k Begin = 8"
| "rank k Enter = (if k = GetOrMint then 7 else 8)"
| "rank k (Queued l) = (if k = GetOrMint then 6 else 7)"
| "rank k (Holding l) = (if k = GetOrMint then 5 else 6)"
| "rank k (Missed l) = 5"
| "rank k (Minting l) = 4"
| "rank k (Unlocking l r) = 3"
| "rank k (Leaving l r) = 2"
| "rank k (Dropping l r) = 1"
| "rank k (Done r) = 0"

abbreviation task_rank :: "'s task \<Rightarrow> nat" where
  "task_rank t \<equiv> rank (task_call t) (task_pc t)"

text \<open>The steps that the calls of \<open>s\<close> still have to make.\<close>

definition work :: "'s system \<Rightarrow> nat" where
  "work s = sum_list (map task_rank (tasks s))"

definition all_done :: "'s system \<Rightarrow> bool" where
  "all_done s \<longleftrightarrow> work s = 0"

lemma all_done_iff: "all_done s \<longleftrightarrow> (\<forall>i<length (tasks s). task_rank (tasks s ! i) = 0)"
  by (auto simp: all_done_def work_def all_set_conv_all_nth)

lemma task_step_pc:
  "task_step grant i s s' \<Longrightarrow>
   i < length (tasks s) \<and> (\<exists>p. tasks s' = (tasks s)[i := (tasks s ! i)\<lparr>task_pc := p\<rparr>] \<and>
   Suc (rank (task_call (tasks s ! i)) p) \<le> task_rank (tasks s ! i))"
  by (erule task_step.cases) (auto simp: asks_lock_def)

lemma task_step_work: "task_step grant i s s' \<Longrightarrow> work s' < work s"
proof -
  assume "task_step grant i s s'"
  then obtain p where i: "i < length (tasks s)"
    and s': "tasks s' = (tasks s)[i := (tasks s ! i)\<lparr>task_pc := p\<rparr>]"
    and p: "rank (task_call (tasks s ! i)) p < task_rank (tasks s ! i)"
    using task_step_pc by (metis Suc_le_eq)
  have "map task_rank (tasks s') = (map task_rank (tasks s))[i := rank (task_call (tasks s ! i)) p]"
    by (simp add: s' map_update)
  moreover have "task_rank (tasks s ! i) \<le> work s"
    using i by (simp add: work_def member_le_sum_list)
  ultimately show ?thesis
    using i p by (simp add: work_def sum_list_update)
qed

lemma unqueued_steps:
  assumes i: "i < length (tasks s)" and "task_rank (tasks s ! i) \<noteq> 0"
    and "\<And>l. task_pc (tasks s ! i) \<noteq> Queued l"
  shows "\<exists>s'. task_step grant i s s'"
proof -
  have asks: "\<exists>s'. task_step grant i s s'" if "asks_lock (tasks s ! i)"
    using that i
    by (cases "hm_get (locks s) (task_secret (tasks s ! i))") (auto intro: task_step.join_lock task_step.new_lock)
  show ?thesis
  proof (cases "task_pc (tasks s ! i)")
    case Begin
    then show ?thesis
    proof (cases "task_call (tasks s ! i)")
      case GetOrMint
      obtain r c where "lru_get (sys_lru s) (task_secret (tasks s ! i)) = (r, c)" by fastforce
      with GetOrMint Begin i show ?thesis
        by (cases r) (auto intro: task_step.first_miss task_step.first_hit)
    qed (use i Begin asks in \<open>simp add: asks_lock_def\<close>)
  next
    case Enter
    with i asks show ?thesis by (simp add: asks_lock_def)
  next
    case (Holding l)
    obtain r c where "look_again (sys_lru s) (task_secret (tasks s ! i)) (task_call (tasks s ! i)) = (r, c)"
      by fastforce
    with Holding i show ?thesis
      by (cases r) (auto intro: task_step.found task_step.missed)
  next
    case (Leaving l r)
    with i show ?thesis
      by (cases "strong_count s l = 2") (auto intro: task_step.leave_last task_step.leave_shared)
  qed (use assms in \<open>auto intro: task_step.mint_failed task_step.unlock task_step.drop_clone task_step.forget_stale\<close>)
qed

lemma some_call_steps:
  assumes c: "mutex_contract grant" and r: "reachable grant s" and "\<not> all_done s"
  shows "\<exists>i s'. task_step grant i s s'"
proof -
  obtain i where i: "i < length (tasks s)" "task_rank (tasks s ! i) \<noteq> 0"
    using assms(3) by (auto simp: all_done_iff)
  show ?thesis
  proof (cases "\<exists>l. task_pc (tasks s ! i) = Queued l")
    case True
    then obtain l where l: "task_pc (tasks s ! i) = Queued l" by blast
    then have W: "finite (waiting s l)" "waiting s l \<noteq> {}"
      using i by (auto simp: waiting_def)
    show ?thesis
    proof (cases "holder s l")
      case None
      then obtain j where "grant (holder s l) (waiting s l) j" "j \<in> waiting s l"
        using c W unfolding mutex_contract_def by metis
      then show ?thesis
        using task_step.acquire [of j s l grant] by (auto simp: waiting_def)
    next
      case (Some j)
      then have "j < length (tasks s)" "inside (task_pc (tasks s ! j)) = Some l"
        using flight_inv_holder [OF reachable_inv [OF c r]] by auto
      then show ?thesis
        using unqueued_steps [of j s grant] by (cases "task_pc (tasks s ! j)"; cases "task_call (tasks s ! j)") auto
    qed
  qed (use unqueued_steps [of i s] i in blast)
qed

subsection \<open>Two concurrent calls, step by step\<close>

text \<open>The most permissive mutex: any waiter may get a free lock.\<close>

definition any_waiter :: "nat option \<Rightarrow> nat set \<Rightarrow> nat \<Rightarrow> bool" where
  "any_waiter h W i \<longleftrightarrow> h = None \<and> i \<in> W"

lemma any_waiter_contract: "mutex_contract any_waiter"
  by (auto simp: mutex_contract_def any_waiter_def)

text \<open>Two calls of \<^verbatim>\<open>remint\<close> for the same secret, at \<open>p\<close> and \<open>q\<close>, after \<open>n\<close> looks into an empty cache.\<close>

definition pair_state :: "u64 \<Rightarrow> nat hmap \<Rightarrow> nat option \<Rightarrow> string pc \<Rightarrow> string pc \<Rightarrow> string system" where
  "pair_state n m h p q =
     \<lparr>sys_lru = \<lparr>capacity = 1, clock = n, entries = []\<rparr>, locks = m, next_lock = length m,
      holder = (\<lambda>_. None)(0 := h),
      tasks = [\<lparr>task_secret = ''k'', task_call = Remint 0, task_pc = p\<rparr>,
               \<lparr>task_secret = ''k'', task_call = Remint 0, task_pc = q\<rparr>]\<rparr>"

lemma reach_task: "reachable grant s \<Longrightarrow> task_step grant i s s' \<Longrightarrow> s' = s'' \<Longrightarrow> reachable grant s''"
  by (auto intro: reachable.step sys_step.task)

lemmas pair_simps = pair_state_def set_pc_def any_waiter_def waiting_def look_again_def asks_lock_def
  minted_after_def lru_get_def tick_def lru_forget_def strong_count_def hm_insert_def hm_get_def Let_def fun_eq_iff

lemma pair_queued: "reachable any_waiter (pair_state 0 [(''k'', 0)] None (Queued 0) (Queued 0))"
proof -
  have "reachable any_waiter (init_system 1)" by (rule reachable.init)
  from reachable.step [OF this sys_step.arrive [of _ _ "''k''" "Remint 0"]]
  have "reachable any_waiter ((init_system 1)\<lparr>tasks := [\<lparr>task_secret = ''k'', task_call = Remint 0, task_pc = Begin\<rparr>]\<rparr>)"
    by (simp add: init_system_def)
  from reachable.step [OF this sys_step.arrive [of _ _ "''k''" "Remint 0"]]
  have "reachable any_waiter (pair_state 0 [] None Begin Begin)"
    by (simp add: init_system_def lru_new_def pair_state_def fun_upd_def cong: if_cong)
  then have "reachable any_waiter (pair_state 0 [(''k'', 0)] None (Queued 0) Begin)"
    by (rule reach_task [OF _ task_step.new_lock [of 0]]) (simp_all add: pair_simps)
  then show ?thesis
    by (rule reach_task [OF _ task_step.join_lock [of 1 _ 0]]) (simp_all add: pair_simps)
qed

lemma pair_minting: "reachable any_waiter (pair_state 1 [(''k'', 0)] (Some 0) (Minting 0) (Queued 0))"
proof -
  from pair_queued
  have "reachable any_waiter (pair_state 0 [(''k'', 0)] (Some 0) (Holding 0) (Queued 0))"
    by (rule reach_task [OF _ task_step.acquire [of 0 _ 0]]) (simp_all add: pair_simps)
  then have "reachable any_waiter (pair_state 1 [(''k'', 0)] (Some 0) (Missed 0) (Queued 0))"
    by (rule reach_task [OF _ task_step.missed [of 0 _ 0]]) (simp_all add: pair_simps)
  then show ?thesis
    by (rule reach_task [OF _ task_step.forget_stale [of 0 _ 0]]) (simp_all add: pair_simps hm_remove_filter)
qed

lemma pair_leaving:
  "reachable any_waiter
     (pair_state 2 [(''k'', 0)] None (Leaving 0 (Inl ''offline'')) (Leaving 0 (Inl ''offline'')))"
proof -
  let ?s = "\<lambda>n h p q. pair_state n [(''k'', 0)] h p q" and ?e = "Inl ''offline''"
  from pair_minting
  have "reachable any_waiter (?s 1 (Some 0) (Unlocking 0 ?e) (Queued 0))"
    by (rule reach_task [OF _ task_step.mint_failed [of 0 _ 0]]) (simp_all add: pair_simps)
  then have "reachable any_waiter (?s 1 None (Leaving 0 ?e) (Queued 0))"
    by (rule reach_task [OF _ task_step.unlock [of 0 _ 0]]) (simp_all add: pair_simps)
  then have "reachable any_waiter (?s 1 (Some 1) (Leaving 0 ?e) (Holding 0))"
    by (rule reach_task [OF _ task_step.acquire [of 1 _ 0]]) (simp_all add: pair_simps)
  then have "reachable any_waiter (?s 2 (Some 1) (Leaving 0 ?e) (Missed 0))"
    by (rule reach_task [OF _ task_step.missed [of 1 _ 0]]) (simp_all add: pair_simps)
  then have "reachable any_waiter (?s 2 (Some 1) (Leaving 0 ?e) (Minting 0))"
    by (rule reach_task [OF _ task_step.forget_stale [of 1 _ 0]]) (simp_all add: pair_simps hm_remove_filter)
  then have "reachable any_waiter (?s 2 (Some 1) (Leaving 0 ?e) (Unlocking 0 ?e))"
    by (rule reach_task [OF _ task_step.mint_failed [of 1 _ 0]]) (simp_all add: pair_simps)
  then show ?thesis
    by (rule reach_task [OF _ task_step.unlock [of 1 _ 0]]) (simp_all add: pair_simps)
qed

lemma pair_done:
  "reachable any_waiter
     (pair_state 2 [(''k'', 0)] None (Done (Inl ''offline'')) (Done (Inl ''offline'')))"
proof -
  let ?s = "\<lambda>p q. pair_state 2 [(''k'', 0)] None p q" and ?e = "Inl ''offline''"
  from pair_leaving
  have "reachable any_waiter (?s (Dropping 0 ?e) (Leaving 0 ?e))"
    by (rule reach_task [OF _ task_step.leave_shared [of 0 _ 0]]) (simp_all add: pair_simps)
  then have "reachable any_waiter (?s (Dropping 0 ?e) (Dropping 0 ?e))"
    by (rule reach_task [OF _ task_step.leave_shared [of 1 _ 0]]) (simp_all add: pair_simps)
  then have "reachable any_waiter (?s (Done ?e) (Dropping 0 ?e))"
    by (rule reach_task [OF _ task_step.drop_clone [of 0 _ 0]]) (simp_all add: pair_simps)
  then show ?thesis
    by (rule reach_task [OF _ task_step.drop_clone [of 1 _ 0]]) (simp_all add: pair_simps)
qed

subsection \<open>A secret that was withdrawn\<close>

text \<open>
  A step of the system in which no call for the secret \<open>k\<close> arrives; and when \<open>k\<close> is out: nothing is cached
  for it and every call for it has returned.
\<close>

definition step_without :: "(nat option \<Rightarrow> nat set \<Rightarrow> nat \<Rightarrow> bool) \<Rightarrow> string \<Rightarrow> 's system \<Rightarrow> 's system \<Rightarrow> bool" where
  "step_without grant k s s' \<longleftrightarrow>
     sys_step grant s s' \<and> (\<forall>t\<in>set (drop (length (tasks s)) (tasks s')). task_secret t \<noteq> k)"

definition calls_returned :: "string \<Rightarrow> 's system \<Rightarrow> bool" where
  "calls_returned k s \<longleftrightarrow> (\<forall>t\<in>set (tasks s). task_secret t = k \<longrightarrow> task_rank t = 0)"

definition secret_gone :: "string \<Rightarrow> 's system \<Rightarrow> bool" where
  "secret_gone k s \<longleftrightarrow> hm_get (entries (sys_lru s)) k = None \<and> calls_returned k s"

lemma trim_absent: "hm_get m k = None \<Longrightarrow> hm_get (trim_entries len m) k = None"
  using trim_entries_subset [of len m] by (auto simp: hm_get_def map_of_eq_None_iff)

lemma lru_absent:
  assumes "hm_get (entries c) k = None"
  shows "hm_get (entries (snd (lru_get c j))) k = None" "hm_get (entries (lru_forget c j)) k = None"
    "hm_get (entries (lru_clear c)) k = None" "hm_get (entries (lru_set_capacity c cap)) k = None"
    "j \<noteq> k \<Longrightarrow> hm_get (entries (lru_insert c j v)) k = None"
  using assms
  by (auto simp: lru_defs lru_clear_def lru_set_capacity_def trim_to_def Let_def trim_absent split: option.splits)

lemma look_absent:
  "hm_get (entries c) k = None \<Longrightarrow> lru_get c j = (r, e) \<Longrightarrow> hm_get (entries e) k = None"
  "hm_get (entries c) k = None \<Longrightarrow> look_again c j call = (found, e) \<Longrightarrow> hm_get (entries e) k = None"
  using lru_absent(1) [of c k j]
  by (auto simp: look_again_def minted_after_def split: call.splits prod.splits option.splits if_splits)

lemma task_step_other:
  assumes "task_step grant i s s'" and "secret_gone k s"
  shows "task_secret (tasks s ! i) \<noteq> k" and "calls_returned k s'"
proof -
  obtain p where i: "i < length (tasks s)" and p: "tasks s' = (tasks s)[i := (tasks s ! i)\<lparr>task_pc := p\<rparr>]"
    and rank: "task_rank (tasks s ! i) \<noteq> 0"
    using task_step_pc [OF assms(1)] by auto
  then show other: "task_secret (tasks s ! i) \<noteq> k"
    using assms(2) by (auto simp: secret_gone_def calls_returned_def)
  show "calls_returned k s'"
    using assms(2) other by (auto simp: secret_gone_def calls_returned_def p dest!: set_update_subset_insert [THEN subsetD])
qed

lemma secret_stays_gone: "step_without grant k s s' \<Longrightarrow> secret_gone k s \<Longrightarrow> secret_gone k s'"
proof -
  assume w: "step_without grant k s s'" and gone: "secret_gone k s"
  from w have "sys_step grant s s'" by (simp add: step_without_def)
  then show "secret_gone k s'"
  proof cases
    case (task i)
    then have "hm_get (entries (sys_lru s')) k = None"
      using gone task_step_other(1) [OF task gone]
      by cases (auto simp: secret_gone_def lru_absent dest: look_absent)
    then show ?thesis
      using task_step_other(2) [OF task gone] by (simp add: secret_gone_def)
  next
    case (arrive secret call)
    then show ?thesis
      using w gone by (auto simp: step_without_def secret_gone_def calls_returned_def)
  qed (use gone in \<open>auto simp: secret_gone_def calls_returned_def lru_absent\<close>)
qed

interpretation secret_out: absence "\<lambda>s. \<not> secret_gone k s" "step_without grant k"
  for k :: string and grant
  by unfold_locales (auto intro: secret_stays_gone)

subsection \<open>A call that runs alone\<close>

text \<open>One call \<open>t\<close> at \<open>p\<close>, and no other.\<close>

definition lone :: "string \<Rightarrow> call \<Rightarrow> 's lru \<Rightarrow> nat hmap \<Rightarrow> nat \<Rightarrow> (nat \<Rightarrow> nat option) \<Rightarrow> 's pc \<Rightarrow> 's system" where
  "lone k call c ls n h p =
     \<lparr>sys_lru = c, locks = ls, next_lock = n, holder = h,
      tasks = [\<lparr>task_secret = k, task_call = call, task_pc = p\<rparr>]\<rparr>"

lemma lone_sel [simp]:
  "sys_lru (lone k call c ls n h p) = c" "locks (lone k call c ls n h p) = ls" "next_lock (lone k call c ls n h p) = n"
  "holder (lone k call c ls n h p) = h"
  "tasks (lone k call c ls n h p) = [\<lparr>task_secret = k, task_call = call, task_pc = p\<rparr>]"
  by (simp_all add: lone_def)

lemma lone_set [simp]:
  "set_pc (lone k call c ls n h p) 0 q = lone k call c ls n h q"
  "set_pc (lone k call c ls n h p\<lparr>sys_lru := c'\<rparr>) 0 q = lone k call c' ls n h q"
  "set_pc (lone k call c ls n h p\<lparr>holder := h'\<rparr>) 0 q = lone k call c ls n h' q"
  "set_pc (lone k call c ls n h p\<lparr>locks := ls'\<rparr>) 0 q = lone k call c ls' n h q"
  "set_pc (lone k call c ls n h p\<lparr>locks := ls', next_lock := n'\<rparr>) 0 q = lone k call c ls' n' h q"
  by (simp_all add: lone_def set_pc_def)

definition before_mint :: "'s lru \<Rightarrow> string \<Rightarrow> call \<Rightarrow> 's lru" where
  "before_mint c secret k = (case k of GetOrMint \<Rightarrow> c | Remint _ \<Rightarrow> lru_forget c secret)"

definition after_look :: "string \<Rightarrow> call \<Rightarrow> 's result \<Rightarrow> 's option \<times> 's lru \<Rightarrow> 's result \<times> 's lru" where
  "after_look k call m x =
     (case x of
        (Some v, c) \<Rightarrow> (Inr v, c)
      | (None, c) \<Rightarrow>
          (m, case m of Inl _ \<Rightarrow> before_mint c k call | Inr v \<Rightarrow> lru_insert (before_mint c k call) k v))"

lemma lone_granted: "mutex_contract grant \<Longrightarrow> grant None {0} 0"
  unfolding mutex_contract_def by (metis finite.emptyI finite.insertI insert_not_empty singletonD)

text \<open>What a call has seen of the cache when it asks for its lock.\<close>

definition first_look :: "string \<Rightarrow> call \<Rightarrow> 's lru \<Rightarrow> 's lru \<Rightarrow> bool" where
  "first_look k call c c1 \<longleftrightarrow>
     (case call of GetOrMint \<Rightarrow> lru_get c k = (None, c1) | Remint _ \<Rightarrow> c1 = c)"

lemma lone_enters:
  assumes "mutex_contract grant" and "h n = None" and p: "p = Enter \<or> p = Begin \<and> call \<noteq> GetOrMint"
  shows "(task_step grant 0)\<^sup>*\<^sup>* (lone k call c [] n h p) (lone k call c [(k, n)] (Suc n) (h(n := Some 0)) (Holding n))"
proof -
  have "task_step grant 0 (lone k call c [] n h p) (lone k call c [(k, n)] (Suc n) h (Queued n))"
    using task_step.new_lock [of 0 "lone k call c [] n h p" grant] p by (simp add: hm_insert_def asks_lock_def)
  moreover have "waiting (lone k call c [(k, n)] (Suc n) h (Queued n)) n = {0}"
    by (auto simp: waiting_def)
  then have "task_step grant 0 (lone k call c [(k, n)] (Suc n) h (Queued n))
      (lone k call c [(k, n)] (Suc n) (h(n := Some 0)) (Holding n))"
    using task_step.acquire [of 0 "lone k call c [(k, n)] (Suc n) h (Queued n)" n grant] lone_granted [OF assms(1)] assms(2)
    by simp
  ultimately show ?thesis by (meson converse_rtranclp_into_rtranclp r_into_rtranclp)
qed

lemma lone_leaves:
  assumes "h n = None"
  shows "(task_step grant 0)\<^sup>*\<^sup>* (lone k call c [(k, n)] (Suc n) (h(n := Some 0)) (Unlocking n r))
    (lone k call c [] (Suc n) h (Done r))"
proof -
  let ?s = "\<lambda>ls h p. lone k call c ls (Suc n) h p"
  have h: "(h(n := Some 0))(n := None) = h" using assms by auto
  have "task_step grant 0 (?s [(k, n)] (h(n := Some 0)) (Unlocking n r)) (?s [(k, n)] h (Leaving n r))"
    using task_step.unlock [of 0 "?s [(k, n)] (h(n := Some 0)) (Unlocking n r)" n r grant] h by simp
  moreover have "task_step grant 0 (?s [(k, n)] h (Leaving n r)) (?s [] h (Dropping n r))"
    using task_step.leave_last [of 0 "?s [(k, n)] h (Leaving n r)" n r grant]
    by (simp add: strong_count_def hm_remove_filter)
  moreover have "task_step grant 0 (?s [] h (Dropping n r)) (?s [] h (Done r))"
    using task_step.drop_clone [of 0 "?s [] h (Dropping n r)" n r grant] by simp
  ultimately show ?thesis by (meson converse_rtranclp_into_rtranclp r_into_rtranclp)
qed

lemma lone_flight:
  assumes g: "mutex_contract grant" and h: "h n = None" and p: "p = Enter \<or> p = Begin \<and> call \<noteq> GetOrMint"
    and l: "after_look k call m (look_again c k call) = (r, e)"
  shows "(task_step grant 0)\<^sup>*\<^sup>* (lone k call c [] n h p) (lone k call e [] (Suc n) h (Done r))"
proof -
  let ?s = "\<lambda>c p. lone k call c [(k, n)] (Suc n) (h(n := Some 0)) p"
  obtain found c1 where f: "look_again c k call = (found, c1)" by fastforce
  have "(task_step grant 0)\<^sup>*\<^sup>* (?s c (Holding n)) (?s e (Unlocking n r))"
  proof (cases found)
    case (Some u)
    then show ?thesis
      using task_step.found [of 0 "?s c (Holding n)" n u c1 grant] l f by (auto simp: after_look_def)
  next
    case None
    let ?b = "before_mint c1 k call"
    have "(task_step grant 0)\<^sup>*\<^sup>* (?s c (Holding n)) (?s ?b (Minting n))"
    proof (cases call)
      case GetOrMint
      then show ?thesis
        using task_step.missed [of 0 "?s c (Holding n)" n c1 grant] f None by (auto simp: before_mint_def)
    next
      case (Remint stale)
      then have "task_step grant 0 (?s c (Holding n)) (?s c1 (Missed n))"
        using task_step.missed [of 0 "?s c (Holding n)" n c1 grant] f None by simp
      moreover have "task_step grant 0 (?s c1 (Missed n)) (?s ?b (Minting n))"
        using task_step.forget_stale [of 0 "?s c1 (Missed n)" n grant] Remint by (simp add: before_mint_def)
      ultimately show ?thesis by (meson converse_rtranclp_into_rtranclp r_into_rtranclp)
    qed
    moreover have "task_step grant 0 (?s ?b (Minting n)) (?s e (Unlocking n r))"
      using l f None task_step.mint_failed [of 0 "?s ?b (Minting n)" n grant]
        task_step.mint_done [of 0 "?s ?b (Minting n)" n grant]
      by (cases m) (auto simp: after_look_def)
    ultimately show ?thesis by (rule rtranclp.rtrancl_into_rtrancl)
  qed
  then show ?thesis
    using lone_enters [where c = c and h = h and n = n and k = k, OF g h p]
      lone_leaves [where c = e and r = r and h = h and n = n and k = k and call = call and grant = grant, OF h]
    by (meson rtranclp_trans)
qed

text \<open>
  The other way round: where a call that runs alone from \<open>c\<close> can be. What it has seen and done so far is
  what the sequential call does up to that point.
\<close>

inductive lone_at :: "string \<Rightarrow> call \<Rightarrow> 's lru \<Rightarrow> nat \<Rightarrow> (nat \<Rightarrow> nat option) \<Rightarrow> 's system \<Rightarrow> bool"
  for k call c n h where
  at_begin: "lone_at k call c n h (lone k call c [] n h Begin)"
| at_hit: "call = GetOrMint \<Longrightarrow> lru_get c k = (Some (v, stamp), e) \<Longrightarrow>
    lone_at k call c n h (lone k call e [] n h (Done (Inr v)))"
| at_enter: "call = GetOrMint \<Longrightarrow> first_look k call c c1 \<Longrightarrow> lone_at k call c n h (lone k call c1 [] n h Enter)"
| at_queued: "first_look k call c c1 \<Longrightarrow>
    lone_at k call c n h (lone k call c1 [(k, n)] (Suc n) h (Queued n))"
| at_holding: "first_look k call c c1 \<Longrightarrow>
    lone_at k call c n h (lone k call c1 [(k, n)] (Suc n) (h(n := Some 0)) (Holding n))"
| at_missed: "call \<noteq> GetOrMint \<Longrightarrow> first_look k call c c1 \<Longrightarrow> look_again c1 k call = (None, c2) \<Longrightarrow>
    lone_at k call c n h (lone k call c2 [(k, n)] (Suc n) (h(n := Some 0)) (Missed n))"
| at_minting: "first_look k call c c1 \<Longrightarrow> look_again c1 k call = (None, c2) \<Longrightarrow>
    lone_at k call c n h (lone k call (before_mint c2 k call) [(k, n)] (Suc n) (h(n := Some 0)) (Minting n))"
| at_unlocking: "first_look k call c c1 \<Longrightarrow> after_look k call m (look_again c1 k call) = (r, e) \<Longrightarrow>
    lone_at k call c n h (lone k call e [(k, n)] (Suc n) (h(n := Some 0)) (Unlocking n r))"
| at_leaving: "first_look k call c c1 \<Longrightarrow> after_look k call m (look_again c1 k call) = (r, e) \<Longrightarrow>
    lone_at k call c n h (lone k call e [(k, n)] (Suc n) h (Leaving n r))"
| at_dropping: "first_look k call c c1 \<Longrightarrow> after_look k call m (look_again c1 k call) = (r, e) \<Longrightarrow>
    lone_at k call c n h (lone k call e [] (Suc n) h (Dropping n r))"
| at_done: "first_look k call c c1 \<Longrightarrow> after_look k call m (look_again c1 k call) = (r, e) \<Longrightarrow>
    lone_at k call c n h (lone k call e [] (Suc n) h (Done r))"

lemma lone_asks [simp]:
  "asks_lock \<lparr>task_secret = k, task_call = call, task_pc = p\<rparr> \<longleftrightarrow> p = Enter \<or> p = Begin \<and> call \<noteq> GetOrMint"
  by (simp add: asks_lock_def)

lemma lone_count [simp]: "strong_count (lone k call c [(k, n)] m h (Leaving n r)) n = 2"
  by (simp add: strong_count_def)

lemma lone_at_step:
  assumes "task_step grant 0 s s'" and "lone_at k call c n h s" and h: "h n = None"
  shows "lone_at k call c n h s'"
  using assms(2)
proof cases
  case at_begin
  with assms(1) show ?thesis
    by cases (auto simp: asks_lock_def hm_insert_def first_look_def split: call.split intro: lone_at.intros)
next
  case (at_minting c1 c2)
  have failed: "lone_at k call c n h (lone k call (before_mint c2 k call) [(k, n)] (Suc n) (h(n := Some 0)) (Unlocking n (Inl msg)))"
    for msg
    by (rule lone_at.at_unlocking [OF at_minting(2), of "Inl msg"]) (simp add: after_look_def at_minting(3))
  have minted: "lone_at k call c n h (lone k call (lru_insert (before_mint c2 k call) k v) [(k, n)] (Suc n)
      (h(n := Some 0)) (Unlocking n (Inr v)))" for v
    by (rule lone_at.at_unlocking [OF at_minting(2), of "Inr v"]) (simp add: after_look_def at_minting(3))
  from assms(1) show ?thesis
    unfolding at_minting(1) by cases (use failed minted in auto)
next
  case (at_holding c1)
  have hit: "lone_at k call c n h (lone k call e [(k, n)] (Suc n) (h(n := Some 0)) (Unlocking n (Inr v)))"
    if "look_again c1 k call = (Some v, e)" for v e
    by (rule lone_at.at_unlocking [OF at_holding(2), of "Inr v"]) (simp add: after_look_def that)
  have mint: "lone_at k call c n h (lone k call e [(k, n)] (Suc n) (h(n := Some 0)) (Minting n))"
    if "look_again c1 k call = (None, e)" "call = GetOrMint" for e
    using lone_at.at_minting [OF at_holding(2) that(1)] that(2) by (simp add: before_mint_def)
  from assms(1) show ?thesis
    unfolding at_holding(1) by cases (use hit mint at_holding(2) in \<open>auto intro: lone_at.at_missed\<close>)
next
  case (at_missed c1 c2)
  then have "lru_forget c2 k = before_mint c2 k call" by (cases call) (simp_all add: before_mint_def)
  with assms(1) at_missed show ?thesis by cases (auto intro: lone_at.at_minting)
next
  case (at_unlocking c1 m r e)
  have "(h(n := Some 0))(n := None) = h" using h by auto
  with assms(1) at_unlocking show ?thesis by cases (auto intro: lone_at.at_leaving)
qed (use assms(1) in \<open>auto elim!: task_step.cases simp: asks_lock_def hm_insert_def hm_remove_filter
      intro: lone_at.intros\<close>)

lemma lone_run_at:
  "(task_step grant 0)\<^sup>*\<^sup>* (lone k call c [] n h Begin) s \<Longrightarrow> h n = None \<Longrightarrow> lone_at k call c n h s"
  by (induction rule: rtranclp_induct) (auto intro: lone_at_step lone_at.at_begin)

subsection \<open>Properties\<close>

text \<open>
  C5 (safety). However calls interleave, one secret has one mint in flight: while a call mints a
  session for a secret, no other call for that secret mints or looks at the cache to decide whether
  it must.
\<close>

theorem one_mint_in_flight_per_secret:
  assumes "mutex_contract grant" and "reachable grant s"
    and "i < length (tasks s)" and "j < length (tasks s)" and "i \<noteq> j"
    and "task_secret (tasks s ! i) = task_secret (tasks s ! j)"
    and "task_pc (tasks s ! i) = Minting l"
  shows "task_pc (tasks s ! j) \<noteq> Minting m \<and> task_pc (tasks s ! j) \<noteq> Holding m \<and>
    task_pc (tasks s ! j) \<noteq> Missed m"
  using inside_exclusive [OF assms(1-4)] assms(5-) by fastforce

theorem one_mint_in_flight_per_secret_witness:
  "let s = pair_state 1 [(''k'', 0)] (Some 0) (Minting 0) (Queued 0)
   in task_pc (tasks s ! 0) = Minting 0 \<and> task_pc (tasks s ! 1) \<noteq> Minting 0 \<and> task_pc (tasks s ! 1) \<noteq> Holding 0"
  using one_mint_in_flight_per_secret [OF any_waiter_contract pair_minting, of 0 1 0 0]
  by (simp add: pair_state_def)

text \<open>
  C6 (liveness). No set of concurrent calls deadlocks: while some call has not returned, some call
  can step, every step brings the calls closer to returning, and a call makes at most eight steps.
  So every run of the calls present in a reachable state ends with all of them returned.
\<close>

theorem concurrent_mints_never_deadlock:
  assumes "mutex_contract grant" and "reachable grant s"
  shows "((\<exists>i s'. task_step grant i s s') \<longleftrightarrow> \<not> all_done s) \<and>
    (\<forall>i s'. task_step grant i s s' \<longrightarrow> work s' < work s) \<and> work s \<le> 8 * length (tasks s)"
proof (intro conjI)
  have le: "rank k p \<le> 8" for k and p :: "'a pc" by (cases p) auto
  show "work s \<le> 8 * length (tasks s)"
    using sum_list_mono [of "tasks s" "task_rank" "\<lambda>_. 8"] le
    by (simp add: work_def sum_list_triv)
  show "\<forall>i s'. task_step grant i s s' \<longrightarrow> work s' < work s"
    using task_step_work by blast
  then show "(\<exists>i s'. task_step grant i s s') \<longleftrightarrow> \<not> all_done s"
    using some_call_steps [OF assms] unfolding all_done_def by (metis less_nat_zero_code)
qed

theorem concurrent_mints_never_deadlock_witness:
  "(\<exists>i s'. task_step any_waiter i (pair_state 0 [(''k'', 0)] None (Queued 0) (Queued 0)) s') \<and>
   work (pair_state 0 [(''k'', 0)] None (Queued 0) (Queued 0)) = 14"
  using concurrent_mints_never_deadlock [OF any_waiter_contract pair_queued]
  by (simp add: all_done_def work_def pair_state_def)

text \<open>The sequential calls on a store with an empty lock map, in the terms of the step relation.\<close>

lemma flight_alone:
  "body \<lparr>store_lru = c, minting = [(k, 1)]\<rparr> w = (r, \<lparr>store_lru = c', minting = [(k, 1)]\<rparr>, w') \<Longrightarrow>
   single_flight \<lparr>store_lru = c, minting = []\<rparr> k body w = (r, \<lparr>store_lru = c', minting = []\<rparr>, w')"
  by (simp add: single_flight_def enter_flight_def leave_flight_def lock_refs_def hm_insert_def hm_get_def hm_remove_filter)

lemma get_or_mint_alone:
  "get_or_mint \<lparr>store_lru = c, minting = []\<rparr> k (\<lambda>w. (m, w)) () =
     (case lru_get c k of
        (Some x, c0) \<Rightarrow> (Inr (fst x), \<lparr>store_lru = c0, minting = []\<rparr>, ())
      | (None, c0) \<Rightarrow>
          (case after_look k GetOrMint m (look_again c0 k GetOrMint) of
             (r, c1) \<Rightarrow> (r, \<lparr>store_lru = c1, minting = []\<rparr>, ())))"
proof (cases "lru_get c k")
  case (Pair hit c0)
  obtain found c1 where "lru_get c0 k = (found, c1)" by fastforce
  then show ?thesis
    using Pair
    by (cases hit; cases found; cases m)
      (auto simp: get_or_mint_def cached_def after_look_def look_again_def before_mint_def mint_and_remember_def
        remember_def intro!: flight_alone)
qed

lemma remint_alone:
  "remint \<lparr>store_lru = c, minting = []\<rparr> k (Some stale) (\<lambda>w. (m, w)) () =
     (case after_look k (Remint stale) m (look_again c k (Remint stale)) of
        (r, c1) \<Rightarrow> (r, \<lparr>store_lru = c1, minting = []\<rparr>, ()))"
proof (cases "minted_after c k stale")
  case (Pair found c1)
  then show ?thesis
    by (cases found; cases m)
      (auto simp: remint_def after_look_def look_again_def before_mint_def mint_and_remember_def
        remember_def forget_def intro!: flight_alone)
qed

text \<open>The sequential call with the answer \<open>m\<close> of its mint.\<close>

definition sequential :: "string \<Rightarrow> call \<Rightarrow> 's result \<Rightarrow> 's lru \<Rightarrow> 's result \<times> 's session_store \<times> unit" where
  "sequential k call m c =
     (case call of
        GetOrMint \<Rightarrow> get_or_mint \<lparr>store_lru = c, minting = []\<rparr> k (\<lambda>w. (m, w)) ()
      | Remint stale \<Rightarrow> remint \<lparr>store_lru = c, minting = []\<rparr> k (Some stale) (\<lambda>w. (m, w)) ())"

lemma sequential_flight:
  assumes "first_look k call c c1" and "after_look k call m (look_again c1 k call) = (r, e)"
  shows "sequential k call m c = (r, \<lparr>store_lru = e, minting = []\<rparr>, ())"
  using assms by (cases call) (auto simp: sequential_def first_look_def get_or_mint_alone remint_alone)

lemma sequential_hit:
  "lru_get c k = (Some (v, stamp), e) \<Longrightarrow> sequential k GetOrMint m c = (Inr v, \<lparr>store_lru = e, minting = []\<rparr>, ())"
  by (simp add: sequential_def get_or_mint_alone)

lemma lone_at_done:
  assumes "lone_at k call c n h s" and "task_pc (tasks s ! 0) = Done r"
  shows "locks s = [] \<and> holder s = h \<and> (\<exists>m. sequential k call m c = (r, \<lparr>store_lru = sys_lru s, minting = []\<rparr>, ()))"
  using assms by cases (auto dest: sequential_flight sequential_hit)

lemma sequential_runs_alone:
  assumes g: "mutex_contract grant" and h: "h n = None" and q: "sequential k call m c = (r, st, u)"
  shows "\<exists>n'. (task_step grant 0)\<^sup>*\<^sup>* (lone k call c [] n h Begin) (lone k call (store_lru st) [] n' h (Done r)) \<and>
    minting st = []"
proof (cases "first_look k call c (snd (lru_get c k)) \<or> call \<noteq> GetOrMint")
  case False
  then obtain v stamp e where f: "call = GetOrMint" "lru_get c k = (Some (v, stamp), e)"
    by (cases "lru_get c k") (auto simp: first_look_def)
  have "task_step grant 0 (lone k call c [] n h Begin) (lone k call e [] n h (Done (Inr v)))"
    using task_step.first_hit [of 0 "lone k call c [] n h Begin" v stamp e grant] f by simp
  with f q sequential_hit [OF f(2), of m] show ?thesis by (auto intro: exI [of _ n])
next
  case True
  obtain c1 p where c1: "first_look k call c c1" and p: "p = Enter \<or> p = Begin \<and> call \<noteq> GetOrMint"
    and to: "(task_step grant 0)\<^sup>*\<^sup>* (lone k call c [] n h Begin) (lone k call c1 [] n h p)"
  proof (cases call)
    case GetOrMint
    with True obtain c1 where "lru_get c k = (None, c1)" by (cases "lru_get c k") (auto simp: first_look_def)
    then show ?thesis
      using that [of c1 Enter] task_step.first_miss [of 0 "lone k call c [] n h Begin" c1 grant] GetOrMint
      by (simp add: first_look_def r_into_rtranclp)
  qed (use that [of c Begin] in \<open>simp add: first_look_def\<close>)
  obtain r' e where a: "after_look k call m (look_again c1 k call) = (r', e)" by fastforce
  then have "r' = r" "st = \<lparr>store_lru = e, minting = []\<rparr>"
    using sequential_flight [OF c1 a] q by auto
  then show ?thesis
    using rtranclp_trans [OF to lone_flight [where h = h and n = n, OF g h p a]] by auto
qed

text \<open>
  C11 (equivalence). The step relation is the code it interleaves: what a call of \<^verbatim>\<open>get_or_mint\<close> or of \<^verbatim>\<open>remint\<close>
  can end with when it runs alone is exactly what the sequential definition ends with, over all answers of
  the mint. Every lone run that returns, returns the answer of the sequential call, leaves its cache, and
  leaves the lock map and the locks as they were; and every outcome of the sequential call has such a run.
\<close>

theorem lone_call_runs_as_sequential:
  assumes "mutex_contract grant" and "h n = None"
  shows "(\<exists>s. (task_step grant 0)\<^sup>*\<^sup>* (lone k call c [] n h Begin) s \<and> task_pc (tasks s ! 0) = Done r \<and>
      sys_lru s = c' \<and> locks s = ls \<and> holder s = h') \<longleftrightarrow>
    h' = h \<and> ls = [] \<and>
    (\<exists>m. (case call of
            GetOrMint \<Rightarrow> get_or_mint \<lparr>store_lru = c, minting = []\<rparr> k (\<lambda>w. (m, w)) ()
          | Remint stale \<Rightarrow> remint \<lparr>store_lru = c, minting = []\<rparr> k (Some stale) (\<lambda>w. (m, w)) ()) =
         (r, \<lparr>store_lru = c', minting = ls\<rparr>, ()))"
  unfolding sequential_def [symmetric]
proof
  assume "\<exists>s. (task_step grant 0)\<^sup>*\<^sup>* (lone k call c [] n h Begin) s \<and> task_pc (tasks s ! 0) = Done r \<and>
      sys_lru s = c' \<and> locks s = ls \<and> holder s = h'"
  then show "h' = h \<and> ls = [] \<and> (\<exists>m. sequential k call m c = (r, \<lparr>store_lru = c', minting = ls\<rparr>, ()))"
    using lone_at_done lone_run_at [where h = h and n = n] assms(2) by metis
next
  assume "h' = h \<and> ls = [] \<and> (\<exists>m. sequential k call m c = (r, \<lparr>store_lru = c', minting = ls\<rparr>, ()))"
  then show "\<exists>s. (task_step grant 0)\<^sup>*\<^sup>* (lone k call c [] n h Begin) s \<and> task_pc (tasks s ! 0) = Done r \<and>
      sys_lru s = c' \<and> locks s = ls \<and> holder s = h'"
    using sequential_runs_alone [where h = h and n = n, OF assms] by fastforce
qed

theorem lone_call_runs_as_sequential_witness:
  "\<exists>s. (task_step any_waiter 0)\<^sup>*\<^sup>* (lone ''k'' GetOrMint (lru_new 2) [] 0 (\<lambda>_. None) Begin) s \<and>
     task_pc (tasks s ! 0) = Done (Inr (5 :: nat)) \<and> locks s = [] \<and>
     map_option entry_value (hm_get (entries (sys_lru s)) ''k'') = Some 5"
proof -
  let ?c = "snd (after_look ''k'' GetOrMint (Inr (5 :: nat)) (look_again (snd (lru_get (lru_new 2) ''k'')) ''k'' GetOrMint))"
  have "get_or_mint \<lparr>store_lru = lru_new 2, minting = []\<rparr> ''k'' (\<lambda>w. (Inr (5 :: nat), w)) () =
      (Inr 5, \<lparr>store_lru = ?c, minting = []\<rparr>, ())"
    unfolding get_or_mint_alone by (simp add: lru_new_def lru_get_def tick_def look_again_def after_look_def)
  moreover have "map_option entry_value (hm_get (entries ?c) ''k'') = Some 5"
    by (simp add: lru_new_def lru_get_def tick_def look_again_def after_look_def before_mint_def lru_insert_def
        trim_to_def hm_contains_def)
  ultimately show ?thesis
    using lone_call_runs_as_sequential [OF any_waiter_contract, where h = "\<lambda>_. None" and n = 0 and call = GetOrMint
        and c = "lru_new 2" and k = "''k''" and r = "Inr 5" and c' = ?c and ls = "[]" and h' = "\<lambda>_. None"]
    by auto
qed

text \<open>
  C39 (safety). The lock map can keep an entry that no call holds: two calls for one secret that
  leave together both see three references (the map's and both clones), because a call drops its
  clone only after it has released the map, so neither removes the entry although both return.
\<close>

theorem mint_lock_can_outlive_its_callers:
  "\<exists>s :: string system. mutex_contract any_waiter \<and> reachable any_waiter s \<and> all_done s \<and>
     locks s = [(''k'', 0)] \<and> strong_count s 0 = 1"
  using any_waiter_contract pair_done
  by (intro exI) (auto simp: all_done_def work_def pair_state_def strong_count_def)


text \<open>The end of a mint caches its session, in whatever cache it finds.\<close>

lemma mint_ends_in_any_cache:
  assumes "reachable grant s" and "i < length (tasks s)" and "task_pc (tasks s ! i) = Minting l"
    and step: "sys_step grant s (s\<lparr>sys_lru := c\<rparr>)" and gone: "hm_get (entries c) (task_secret (tasks s ! i)) = None"
  shows "\<exists>after. task_step grant i (s\<lparr>sys_lru := c\<rparr>) after \<and> reachable grant after \<and>
     map_option fst (fst (lru_get (sys_lru after) (task_secret (tasks s ! i)))) = Some v"
proof -
  let ?k = "task_secret (tasks s ! i)"
  let ?after = "set_pc (s\<lparr>sys_lru := lru_insert c ?k v\<rparr>) i (Unlocking l (Inr v))"
  have a: "task_step grant i (s\<lparr>sys_lru := c\<rparr>) ?after"
    using task_step.mint_done [of i "s\<lparr>sys_lru := c\<rparr>" l grant v] assms(2,3) by simp
  moreover have "reachable grant ?after"
    using reachable.step [OF reachable.step [OF assms(1) step] sys_step.task [OF a]] .
  moreover have "map_option fst (fst (lru_get (sys_lru ?after) ?k)) = Some v"
    by (simp add: set_pc_def lru_defs)
  ultimately show ?thesis by blast
qed

text \<open>
  C36 (safety). Clearing the cache does not reach a mint that is under way, and neither does forgetting its
  secret. When a call is waiting for its import while the network is switched and the cache cleared, or while
  its secret is signed out and forgotten, the session it gets is cached afterwards and answered to the
  next caller for that secret.
\<close>

theorem mint_under_way_survives_clear:
  assumes "reachable grant s" and "i < length (tasks s)" and "task_pc (tasks s ! i) = Minting l"
  shows "(\<exists>cleared after. sys_step grant s cleared \<and> entries (sys_lru cleared) = [] \<and>
     task_step grant i cleared after \<and> reachable grant after \<and>
     map_option fst (fst (lru_get (sys_lru after) (task_secret (tasks s ! i)))) = Some v) \<and>
    (\<exists>after. task_step grant i (s\<lparr>sys_lru := lru_forget (sys_lru s) (task_secret (tasks s ! i))\<rparr>) after \<and>
     reachable grant after \<and>
     map_option fst (fst (lru_get (sys_lru after) (task_secret (tasks s ! i)))) = Some v)"
proof
  let ?c = "lru_clear (sys_lru s)"
  have c: "sys_step grant s (s\<lparr>sys_lru := ?c\<rparr>)" by (rule sys_step.clear_all)
  have e: "entries (sys_lru (s\<lparr>sys_lru := ?c\<rparr>)) = []" by (simp add: lru_clear_def)
  then have "hm_get (entries ?c) (task_secret (tasks s ! i)) = None" by simp
  from mint_ends_in_any_cache [OF assms c this, of v] show "\<exists>cleared after. sys_step grant s cleared \<and>
      entries (sys_lru cleared) = [] \<and> task_step grant i cleared after \<and> reachable grant after \<and>
      map_option fst (fst (lru_get (sys_lru after) (task_secret (tasks s ! i)))) = Some v"
    using c e by blast
next
  show "\<exists>after. task_step grant i (s\<lparr>sys_lru := lru_forget (sys_lru s) (task_secret (tasks s ! i))\<rparr>) after \<and>
      reachable grant after \<and> map_option fst (fst (lru_get (sys_lru after) (task_secret (tasks s ! i)))) = Some v"
    by (rule mint_ends_in_any_cache [OF assms sys_step.forget_one]) (simp add: lru_forget_def)
qed

theorem mint_under_way_survives_clear_witness:
  "\<exists>cleared after. sys_step any_waiter (pair_state 1 [(''k'', 0)] (Some 0) (Minting 0) (Queued 0)) cleared \<and>
     entries (sys_lru cleared) = [] \<and> task_step any_waiter 0 cleared after \<and>
     map_option fst (fst (lru_get (sys_lru after) ''k'')) = Some ''outgoing''"
  using mint_under_way_survives_clear [OF pair_minting, of 0 0 "''outgoing''"]
  by (force simp: pair_state_def)

end
