(* ===== verification/Ffi_Sessions.thy ===== *)
theory Ffi_Sessions
  imports Single_Flight Keys
begin

section \<open>The exports that take a session secret\<close>

text \<open>
  Models the functions of \<^verbatim>\<open>src/lib.rs\<close> that work with a stored session secret: writes and deletions
  through the session cache, signing out, revalidating, and listing and revoking grants. They run on the
  session store of theory \<open>Session_Store\<close> and answer the response vector. The SDK's calls are parameters.
\<close>

record ('s, 'c, 'g, 'w) session_calls =
  call_restore :: "string \<Rightarrow> 'w \<Rightarrow> (sdk_error + 's) \<times> 'w"
  call_put :: "'s \<Rightarrow> string \<Rightarrow> bytes \<Rightarrow> 'w \<Rightarrow> (sdk_error + unit) \<times> 'w"
  call_delete :: "'s \<Rightarrow> string \<Rightarrow> 'w \<Rightarrow> (sdk_error + unit) \<times> 'w"
  call_signout :: "'s \<Rightarrow> 'w \<Rightarrow> (sdk_error + unit) \<times> 'w"
  call_list_grants :: "'s \<Rightarrow> 'w \<Rightarrow> (sdk_error + json list) \<times> 'w"
  call_revoke :: "'s \<Rightarrow> string \<Rightarrow> 'w \<Rightarrow> (sdk_error + unit) \<times> 'w"
  call_revalidate :: "'s \<Rightarrow> 'w \<Rightarrow> (sdk_error + bool) \<times> 'w"
  grant_id_try_from :: "string \<Rightarrow> string result"
  session_grant :: "'s \<Rightarrow> 'g option"
  session_grant_id :: "'g \<Rightarrow> 'w \<Rightarrow> string \<times> 'w"
  from_shared_secret :: "string \<Rightarrow> (sdk_error + 'c)"
  from_grant_credential :: "'c \<Rightarrow> 's"
  session_texts :: "('s, 'w) session_api"

subsection \<open>Paths\<close>

definition trimmed :: "string \<Rightarrow> string" where
  "trimmed url = trim_end_char (CHR ''/'') url"

definition pub_path :: "string \<Rightarrow> string option" where
  "pub_path url = map_option (\<lambda>i. drop i (trimmed url)) (find_str (trimmed url) ''/pub/'')"

definition bad_url :: string where
  "bad_url = ''Invalid URL: must contain /pub/''"

subsection \<open>Writes\<close>

definition put_bytes_with_session ::
  "('s, 'c, 'g, 'w) session_calls \<Rightarrow> string \<Rightarrow> bytes \<Rightarrow> string \<Rightarrow> 's session_store \<Rightarrow> 'w \<Rightarrow>
   string list \<times> 's session_store \<times> 'w" where
  "put_bytes_with_session C url content secret st w =
     (case pub_path url of
        None \<Rightarrow> (create_response_vector True bad_url, st, w)
      | Some path \<Rightarrow>
          (case with_session (call_restore C) secret (\<lambda>session. call_put C session path content) st w of
             (Inr _, st, w) \<Rightarrow> (create_response_vector False (trimmed url), st, w)
           | (Inl e, st, w) \<Rightarrow> (create_response_vector True (into_message e ''Failed to put''), st, w)))"

definition put_with_session ::
  "('s, 'c, 'g, 'w) session_calls \<Rightarrow> string \<Rightarrow> string \<Rightarrow> string \<Rightarrow> 's session_store \<Rightarrow> 'w \<Rightarrow>
   string list \<times> 's session_store \<times> 'w" where
  "put_with_session C url content secret st w =
     (let content_bytes = text_bytes content in
      case pub_path url of
        None \<Rightarrow> (create_response_vector True bad_url, st, w)
      | Some path \<Rightarrow>
          (case with_session (call_restore C) secret (\<lambda>session. call_put C session path content_bytes) st w of
             (Inr _, st, w) \<Rightarrow> (create_response_vector False (trimmed url), st, w)
           | (Inl e, st, w) \<Rightarrow> (create_response_vector True (into_message e ''Failed to put''), st, w)))"

definition delete_with_session ::
  "('s, 'c, 'g, 'w) session_calls \<Rightarrow> string \<Rightarrow> string \<Rightarrow> 's session_store \<Rightarrow> 'w \<Rightarrow>
   string list \<times> 's session_store \<times> 'w" where
  "delete_with_session C url secret st w =
     (case pub_path url of
        None \<Rightarrow> (create_response_vector True bad_url, st, w)
      | Some path \<Rightarrow>
          (case with_session (call_restore C) secret (\<lambda>session. call_delete C session path) st w of
             (Inr _, st, w) \<Rightarrow> (create_response_vector False ''Deleted successfully'', st, w)
           | (Inl e, st, w) \<Rightarrow> (create_response_vector True (into_message e ''Failed to delete''), st, w)))"

subsection \<open>Sessions and grants\<close>

definition configure_session_cache ::
  "u32 \<Rightarrow> 's session_store \<Rightarrow> string list \<times> 's session_store" where
  "configure_session_cache cap st =
     (case configure st (unat cap) of
        (n, st) \<Rightarrow> (create_response_vector False (''Session cache keeps '' @ show_nat n @ '' sessions''), st))"

definition sign_out ::
  "('s, 'c, 'g, 'w) session_calls \<Rightarrow> string \<Rightarrow> 's session_store \<Rightarrow> 'w \<Rightarrow> string list \<times> 's session_store \<times> 'w" where
  "sign_out C secret st w =
     (case session_for (call_restore C) secret st w of
        (Inl message, st, w) \<Rightarrow> (create_response_vector True message, st, w)
      | (Inr session, st, w) \<Rightarrow>
          (let st = forget st secret in
           case call_signout C session w of
             (Inr _, w) \<Rightarrow> (create_response_vector False ''Sign out success'', st, w)
           | (Inl e, w) \<Rightarrow> (create_response_vector True (''Failed to sign out: '' @ full_error_chain e), st, w)))"

definition list_grants ::
  "('s, 'c, 'g, 'w) session_calls \<Rightarrow> string \<Rightarrow> 's session_store \<Rightarrow> 'w \<Rightarrow> string list \<times> 's session_store \<times> 'w" where
  "list_grants C secret st w =
     (case with_session (call_restore C) secret (call_list_grants C) st w of
        (Inr grants, st, w) \<Rightarrow>
          (respond (map_sum (\<lambda>e. ''Failed to serialize grants: '' @ e) (\<lambda>t. t)
             (to_text (session_texts C) (JArr grants))), st, w)
      | (Inl e, st, w) \<Rightarrow> (create_response_vector True (into_message e ''Failed to list grants''), st, w))"

definition revoke_grant ::
  "('s, 'c, 'g, 'w) session_calls \<Rightarrow> string \<Rightarrow> string \<Rightarrow> 's session_store \<Rightarrow> 'w \<Rightarrow>
   string list \<times> 's session_store \<times> 'w" where
  "revoke_grant C secret grant_id st w =
     (case grant_id_try_from C grant_id of
        Inl e \<Rightarrow> (create_response_vector True (''Invalid grant id: '' @ e), st, w)
      | Inr gid \<Rightarrow>
          (case with_session (call_restore C) secret (\<lambda>session. call_revoke C session gid) st w of
             (Inr _, st, w) \<Rightarrow>
               (case forget_grant (session_grant C) (session_grant_id C) gid st w of
                  (st, w) \<Rightarrow> (create_response_vector False ''Grant revoked'', st, w))
           | (Inl e, st, w) \<Rightarrow> (create_response_vector True (into_message e ''Failed to revoke grant''), st, w)))"

definition revoke_own_grant ::
  "('s, 'c, 'g, 'w) session_calls \<Rightarrow> string \<Rightarrow> 's session_store \<Rightarrow> 'w \<Rightarrow> string list \<times> 's session_store \<times> 'w" where
  "revoke_own_grant C secret st w =
     (let st = forget st secret in
      case from_shared_secret C secret of
        Inl e \<Rightarrow> (create_response_vector True (''Not a grant session secret: '' @ full_error_chain e), st, w)
      | Inr credential \<Rightarrow>
          (case call_signout C (from_grant_credential C credential) w of
             (Inr _, w) \<Rightarrow> (create_response_vector False ''Grant revoked'', st, w)
           | (Inl e, w) \<Rightarrow>
               if \<not> is_session_rejected e
               then (create_response_vector True (''Failed to revoke grant: '' @ full_error_chain e), st, w)
               else
                 (case refreshed_session (call_restore C) secret st w of
                    (Inl message, st, w) \<Rightarrow> (create_response_vector True message, st, w)
                  | (Inr session, st, w) \<Rightarrow>
                      (let st = forget st secret in
                       case call_signout C session w of
                         (Inr _, w) \<Rightarrow> (create_response_vector False ''Grant revoked'', st, w)
                       | (Inl e, w) \<Rightarrow>
                           (create_response_vector True (into_message (Op e) ''Failed to revoke grant''), st, w)))))"

definition session_refused :: string where
  "session_refused =
     SESSION_REJECTED @ '': the homeserver refused this session as invalid (expired or invalidated)''"

definition revalidated_text :: "('s, 'w) session_api \<Rightarrow> 's \<Rightarrow> 'w \<Rightarrow> string list \<times> 'w" where
  "revalidated_text S session w =
     (case export_grant_session_secret S session w of
        (Inr secret, w) \<Rightarrow>
          (case session_to_json_with_grant_secret S session secret w of (r, w) \<Rightarrow> (respond r, w))
      | (Inl _, w) \<Rightarrow>
          (case export_cookie_session_secret S session of
             Inr secret \<Rightarrow> (create_response_vector False (session_to_json_with_cookie_secret S session secret), w)
           | Inl e \<Rightarrow> (create_response_vector True e, w)))"

definition revalidate_session ::
  "('s, 'c, 'g, 'w) session_calls \<Rightarrow> string \<Rightarrow> 's session_store \<Rightarrow> 'w \<Rightarrow> string list \<times> 's session_store \<times> 'w" where
  "revalidate_session C secret st w =
     (case refreshed_session (call_restore C) secret st w of
        (Inl message, st, w) \<Rightarrow> (create_response_vector True message, st, w)
      | (Inr session, st, w) \<Rightarrow>
          (case call_revalidate C session w of
             (Inr True, w) \<Rightarrow>
               (case revalidated_text (session_texts C) session w of (r, w) \<Rightarrow> (r, st, w))
           | (Inr False, w) \<Rightarrow> (create_response_vector True session_refused, st, w)
           | (Inl e, w) \<Rightarrow>
               (create_response_vector True (''Failed to revalidate session: '' @ full_error_chain e), st, w)))"


subsection \<open>Properties\<close>

lemma refreshed_session_cases:
  "\<exists>gone. held gone secret = None \<and>
     refreshed_session restore secret st w =
       (case import_session restore secret w of
          (Inl m, v) \<Rightarrow> (Inl m, leave_flight gone secret, v)
        | (Inr s, v) \<Rightarrow> (Inr s, leave_flight (remember gone secret s) secret, v))"
proof -
  let ?cached = "snd (cached st secret)"
  let ?gone = "forget (snd (cached (enter_flight ?cached secret) secret)) secret"
  have "refreshed_session restore secret st w =
      remint ?cached secret (map_option snd (held st secret)) (import_session restore secret) w"
    unfolding refreshed_session_def by (subst cached_eq) simp
  also have "\<dots> =
    (case import_session restore secret w of
       (Inl m, w) \<Rightarrow> (Inl m, leave_flight ?gone secret, w)
     | (Inr v, w) \<Rightarrow> (Inr v, leave_flight (remember ?gone secret v) secret, w))"
    by (rule remint_stale) (auto split: option.splits)
  finally have eq: "refreshed_session restore secret st w = \<dots>" .
  show ?thesis by (rule exI [of _ ?gone]) (simp add: eq)
qed

lemma session_for_failed: "session_for restore secret st w = (Inl m, st', w') \<Longrightarrow> held st' secret = None"
proof (cases "held st secret")
  case None
  assume "session_for restore secret st w = (Inl m, st', w')"
  then show ?thesis
    using None unfolding session_for_def get_or_mint_miss [OF None]
    by (auto split: prod.splits sum.splits)
next
  case (Some x)
  assume "session_for restore secret st w = (Inl m, st', w')"
  then show ?thesis
    using get_or_mint_hit [of st secret "fst x" "snd x" "import_session restore secret" w] Some
    by (simp add: session_for_def)
qed

lemma refreshed_session_failed:
  "refreshed_session restore secret st w = (Inl m, st', w') \<Longrightarrow> held st' secret = None"
proof -
  assume r: "refreshed_session restore secret st w = (Inl m, st', w')"
  show ?thesis
    using refreshed_session_cases [of secret restore st w] r
    by (cases "import_session restore secret w"; cases "fst (import_session restore secret w)") auto
qed

subsection \<open>What is sent to the homeserver\<close>

text \<open>
  The requests that change something, as a log might keep them: each with whether it was accepted. Imports
  and lookups of a session's grant are not in it.
\<close>

datatype change = PutTo string bytes | DeleteAt string | SignOut | RevokeId string

definition logs_changes :: "('s, 'c, 'g, 'w) session_calls \<Rightarrow> ('w \<Rightarrow> (change \<times> bool) list) \<Rightarrow> bool" where
  "logs_changes C log \<longleftrightarrow>
     (\<forall>k w. log (snd (call_restore C k w)) = log w) \<and> (\<forall>g w. log (snd (session_grant_id C g w)) = log w) \<and>
     (\<forall>s p b w. log (snd (call_put C s p b w)) = log w @ [(PutTo p b, \<not> isl (fst (call_put C s p b w)))]) \<and>
     (\<forall>s p w. log (snd (call_delete C s p w)) = log w @ [(DeleteAt p, \<not> isl (fst (call_delete C s p w)))]) \<and>
     (\<forall>s w. log (snd (call_signout C s w)) = log w @ [(SignOut, \<not> isl (fst (call_signout C s w)))]) \<and>
     (\<forall>s g w. log (snd (call_revoke C s g w)) = log w @ [(RevokeId g, \<not> isl (fst (call_revoke C s g w)))])"

text \<open>From \<open>w\<close> to \<open>w'\<close> only the change \<open>x\<close> was requested, at most twice, and accepted at the end or never.\<close>

definition requested :: "('w \<Rightarrow> (change \<times> bool) list) \<Rightarrow> change \<Rightarrow> bool \<Rightarrow> 'w \<Rightarrow> 'w \<Rightarrow> bool" where
  "requested log x accepted w w' \<longleftrightarrow>
     (\<exists>rs. log w' = log w @ rs \<and> (\<forall>y\<in>set rs. fst y = x) \<and> length rs \<le> 2 \<and>
        length (filter snd rs) = (if accepted then 1 else 0))"

lemma requested_nothing: "log w' = log w \<Longrightarrow> requested log x False w w'"
  by (auto simp: requested_def intro!: exI [of _ "[]"])

lemma requested_once: "log w' = log w @ [(x, b)] \<Longrightarrow> requested log x b w w'"
  by (auto simp: requested_def intro!: exI [of _ "[(x, b)]"])

lemma requested_twice: "log w' = log w @ [(x, False), (x, b)] \<Longrightarrow> requested log x b w w'"
  by (auto simp: requested_def intro!: exI [of _ "[(x, False), (x, b)]"])

lemma import_log:
  assumes "\<And>k w. log (snd (restore k w)) = log w"
  shows "log (snd (import_session restore secret w)) = log w"
  using assms [of secret w] by (auto simp: import_session_def split: prod.splits sum.splits)

lemma mint_log:
  assumes "\<And>w. log (snd (mint w)) = log w"
  shows "log (snd (snd (get_or_mint st secret mint w))) = log w"
    and "log (snd (snd (remint st secret stale mint w))) = log w"
  using assms [of w]
  by (auto simp: get_or_mint_def remint_def single_flight_def mint_and_remember_def Let_def
      split: prod.splits option.splits sum.splits)

lemma sessions_log:
  assumes "\<And>k w. log (snd (restore k w)) = log w"
  shows "session_for restore secret st w = (r, st', w') \<Longrightarrow> log w' = log w"
    and "remint st secret stale (import_session restore secret) w = (r, st', w') \<Longrightarrow> log w' = log w"
    and "refreshed_session restore secret st w = (r, st', w') \<Longrightarrow> log w' = log w"
  using mint_log [where mint = "import_session restore secret" and log = log, OF import_log [where restore = restore and log = log, OF assms]]
  by (auto simp: session_for_def refreshed_session_def split: prod.splits) (metis snd_conv)+

lemma with_session_requests:
  assumes restore: "\<And>k w. log (snd (restore k w)) = log w"
    and op: "\<And>s w. log (snd (operation s w)) = log w @ [(x, \<not> isl (fst (operation s w)))]"
    and run: "with_session restore secret operation st w = (r, st', w')"
  shows "requested log x (\<not> isl r) w w'"
proof -
  have op': "log v' = log v @ [(x, \<not> isl a)]" if "operation s v = (a, v')" for s v a v'
    using op [of s v] that by simp
  have get: "log v' = log v" if "session_for restore secret st v = (a, st', v')" for st v a st' v'
    using that by (rule sessions_log(1) [where restore = restore, OF restore])
  have again: "log v' = log v" if "remint st secret stale (import_session restore secret) v = (a, st', v')" for st stale v a st' v'
    using that by (rule sessions_log(2) [where restore = restore, OF restore])
  obtain seen st1 where c: "cached st secret = (seen, st1)" by fastforce
  show ?thesis
  proof (cases seen)
    case None
    then show ?thesis
      using run c unfolding with_session_def
      by (auto split: prod.splits sum.splits dest!: op' get intro: requested_nothing requested_once)
  next
    case (Some x)
    then show ?thesis
      using run c unfolding with_session_def
      by (auto split: prod.splits sum.splits if_splits dest!: op' again intro: requested_once requested_twice)
  qed
qed

text \<open>The example calls: sessions are numbers, the world is a log of what was asked.\<close>

definition example_texts :: "(nat, 'w) session_api" where
  "example_texts =
     \<lparr>public_key_of = \<lambda>_. ''pk'', capabilities_of = \<lambda>_. [], as_grant = \<lambda>_. False,
      grant_session_info = \<lambda>_ w. (\<lparr>gi_homeserver = ''hs'', gi_pubky = ''pk'', gi_client_id = ''app'',
        gi_capabilities = [], gi_grant_id = ''g'', gi_token_expires_at = 1, gi_grant_expires_at = 2,
        gi_created_at = 0\<rparr>, w),
      export_local_secret = \<lambda>_ w. (None, w), as_cookie = \<lambda>_. True, export_secret = \<lambda>_. Some ''c'',
      to_text = \<lambda>_. Inr ''json''\<rparr>"

definition example_calls :: "(nat, nat, nat, string list) session_calls" where
  "example_calls =
     \<lparr>call_restore = \<lambda>_ w. (Inr 7, w @ [''restore'']), call_put = \<lambda>_ p _ w. (Inr (), w @ [''put '' @ p]),
      call_delete = \<lambda>_ p w. (Inr (), w @ [''delete '' @ p]), call_signout = \<lambda>_ w. (Inr (), w @ [''signout'']),
      call_list_grants = \<lambda>_ w. (Inr [], w), call_revoke = \<lambda>_ _ w. (Inr (), w),
      call_revalidate = \<lambda>_ w. (Inr False, w @ [''revalidate'']), grant_id_try_from = Inr,
      session_grant = \<lambda>_. None, session_grant_id = \<lambda>_ w. (''g'', w), from_shared_secret = \<lambda>_. Inr 3,
      from_grant_credential = \<lambda>c. c,
      session_texts = example_texts\<rparr>"

lemma signed_out_absent:
  "held (fst (snd (sign_out C secret st w))) secret = None"
  "held (fst (snd (revoke_own_grant C secret st w))) secret = None"
  by (auto simp: sign_out_def revoke_own_grant_def Let_def split: prod.splits sum.splits
      dest: session_for_failed refreshed_session_failed)

text \<open>
  C20 (safety). A secret that was signed out or revoked is not served from the cache again. Whatever the
  homeserver answered: when no other call with the secret is under way, then whatever calls with other
  secrets do afterwards, in any interleaving, and whoever looks up, clears or resizes the cache, the
  secret stays out of it, and the next write with it imports it first, exactly once, and sends nothing when
  that fails. (A call with the secret that is importing at that moment does bring it back.)
\<close>

theorem signed_out_secret_stays_out:
  assumes "st1 = fst (snd (sign_out C secret st w)) \<or> st1 = fst (snd (revoke_own_grant C secret st w))"
    and "sys_lru s1 = store_lru st1" and "calls_returned secret s1" and "(step_without grant secret)\<^sup>*\<^sup>* s1 s2"
    and "store_lru st2 = sys_lru s2"
    and "pub_path url = Some path" and "import_session (call_restore C) secret v = (imported, v1)"
  shows "held st2 secret = None \<and>
    (case imported of
       Inl message \<Rightarrow> \<exists>st'. put_bytes_with_session C url content secret st2 v =
         (create_response_vector True message, st', v1) \<and> held st' secret = None
     | Inr session \<Rightarrow> snd (snd (put_bytes_with_session C url content secret st2 v)) =
         snd (call_put C session path content v1))"
proof -
  have "held st1 secret = None"
    using assms(1) signed_out_absent by metis
  then have "secret_gone secret s1"
    using assms(2,3) by (simp add: held_def secret_gone_def)
  then have "secret_gone secret s2"
    using secret_out.stays_absent [OF assms(4)] by blast
  then have out: "held st2 secret = None"
    using assms(5) by (simp add: held_def secret_gone_def)
  note cold = with_session_cold_spec [OF this assms(7), of "\<lambda>session. call_put C session path content"]
  show ?thesis
  proof (cases imported)
    case (Inl message)
    then show ?thesis
      using out assms(6) cold by (auto simp: put_bytes_with_session_def)
  next
    case (Inr session)
    obtain r v2 where put: "call_put C session path content v1 = (r, v2)" by fastforce
    then show ?thesis
      using out assms(6) cold Inr by (cases r) (auto simp: put_bytes_with_session_def)
  qed
qed

theorem signed_out_secret_stays_out_witness:
  "let st = fst (snd (sign_out example_calls ''k'' (remember (store_new 2) ''k'' 1) [])) in
   held st ''k'' = None \<and>
   snd (snd (put_bytes_with_session example_calls ''x/pub/a'' [1] ''k'' (clear st) [])) = [''restore'', ''put /pub/a'']"
proof -
  let ?st = "fst (snd (sign_out example_calls ''k'' (remember (store_new 2) ''k'' 1) []))"
  let ?s = "(init_system 2)\<lparr>sys_lru := store_lru ?st\<rparr>"
  have "step_without any_waiter ''k'' ?s (?s\<lparr>sys_lru := lru_clear (sys_lru ?s)\<rparr>)"
    unfolding step_without_def using sys_step.clear_all [of any_waiter ?s] by simp
  then have run: "(step_without any_waiter ''k'')\<^sup>*\<^sup>* ?s (?s\<lparr>sys_lru := lru_clear (sys_lru ?s)\<rparr>)"
    by (rule r_into_rtranclp)
  have path: "pub_path ''x/pub/a'' = Some ''/pub/a''" by (simp add: pub_path_def trimmed_def trim_end_char_def)
  have restored: "import_session (call_restore example_calls) ''k'' [] = (Inr 7, [''restore''])"
    and put: "snd (call_put example_calls 7 ''/pub/a'' [1] [''restore'']) = [''restore'', ''put /pub/a'']"
    by (simp_all add: example_calls_def import_session_def)
  show ?thesis
    using signed_out_secret_stays_out [OF disjI1 [OF refl] _ _ run _ path restored,
        where st = "remember (store_new 2) ''k'' 1" and w = "[]" and ?st2.0 = "clear ?st" and content = "[1]"]
      signed_out_absent(1) put
    by (simp add: calls_returned_def init_system_def clear_def Let_def)
qed

text \<open>
  Revalidating asks the homeserver and never answers from the cache. Whatever is
  cached, the secret is imported exactly once; a failed import is the answer and leaves nothing cached;
  otherwise the session just imported is the one that is checked, and it is the one left in the cache.
\<close>

theorem revalidation_never_uses_cached_session:
  "(\<forall>m w1. import_session (call_restore C) secret w = (Inl m, w1) \<longrightarrow>
      (\<exists>st'. revalidate_session C secret st w = (create_response_vector True m, st', w1) \<and> held st' secret = None)) \<and>
   (\<forall>s w1 e w2. import_session (call_restore C) secret w = (Inr s, w1) \<and> call_revalidate C s w1 = (Inl e, w2) \<longrightarrow>
      (\<exists>st' n. revalidate_session C secret st w =
         (create_response_vector True (''Failed to revalidate session: '' @ full_error_chain e), st', w2) \<and>
         held st' secret = Some (s, n))) \<and>
   (\<forall>s w1 w2. import_session (call_restore C) secret w = (Inr s, w1) \<and> call_revalidate C s w1 = (Inr False, w2) \<longrightarrow>
      (\<exists>st' n. revalidate_session C secret st w = (create_response_vector True session_refused, st', w2) \<and>
         held st' secret = Some (s, n))) \<and>
   (\<forall>s w1 w2. import_session (call_restore C) secret w = (Inr s, w1) \<and> call_revalidate C s w1 = (Inr True, w2) \<longrightarrow>
      (\<exists>st' n. revalidate_session C secret st w =
         (fst (revalidated_text (session_texts C) s w2), st', snd (revalidated_text (session_texts C) s w2)) \<and>
         held st' secret = Some (s, n)))"
proof -
  obtain gone where "held gone secret = None" and
    "refreshed_session (call_restore C) secret st w =
       (case import_session (call_restore C) secret w of
          (Inl m, v) \<Rightarrow> (Inl m, leave_flight gone secret, v)
        | (Inr s, v) \<Rightarrow> (Inr s, leave_flight (remember gone secret s) secret, v))"
    using refreshed_session_cases [of secret "call_restore C" st w] by blast
  then show ?thesis
    by (auto simp: revalidate_session_def split: prod.splits)
qed

theorem revalidation_never_uses_cached_session_witness:
  "snd (snd (revalidate_session example_calls ''k'' (remember (store_new 2) ''k'' 1) [])) = [''restore'', ''revalidate'']"
  using revalidation_never_uses_cached_session [of example_calls "''k''" "[]" "remember (store_new 2) ''k'' 1"]
  by (auto simp: example_calls_def import_session_def)

lemma trimmed_slashes [simp]: "trimmed (url @ replicate n CHR ''/'') = trimmed url"
proof -
  have "dropWhile ((=) CHR ''/'') (replicate n CHR ''/'' @ s) = dropWhile ((=) CHR ''/'') s" for s
    by (induction n) auto
  then show ?thesis by (simp add: trimmed_def trim_end_char_def)
qed

lemma pub_path_slashes [simp]: "pub_path (url @ replicate n CHR ''/'') = pub_path url"
  by (simp add: pub_path_def)

text \<open>The path of a URL, without the search for it: what follows the host, from the first \<^verbatim>\<open>/pub/\<close> on.\<close>

lemma pub_path_iff:
  "pub_path url = Some path \<longleftrightarrow>
     prefix ''/pub/'' path \<and> last path \<noteq> CHR ''/'' \<and>
     (\<exists>host n. url = host @ path @ replicate n CHR ''/'' \<and>
        (\<forall>i<length host. \<not> prefix ''/pub/'' (drop i (host @ path))))" (is "?L \<longleftrightarrow> ?R")
proof
  assume ?L
  then obtain i where i: "find_str (trimmed url) ''/pub/'' = Some i" and path: "path = drop i (trimmed url)"
    by (auto simp: pub_path_def)
  have pre: "prefix ''/pub/'' path" and le: "i \<le> length (trimmed url)"
    using find_str_Some [OF i] path by auto
  obtain n where n: "url = trimmed url @ replicate n CHR ''/''"
    and l: "trimmed url = [] \<or> last (trimmed url) \<noteq> CHR ''/''"
    using trim_end_char_decomp [of url "CHR ''/''"] unfolding trimmed_def by blast
  have whole: "trimmed url = take i (trimmed url) @ path" by (simp add: path)
  have "path \<noteq> []" using pre by auto
  then have "last path \<noteq> CHR ''/''" using l path by (auto simp: last_drop)
  moreover have "url = take i (trimmed url) @ path @ replicate n CHR ''/''" using n whole by (metis append.assoc)
  moreover have "\<forall>j<length (take i (trimmed url)). \<not> prefix ''/pub/'' (drop j (take i (trimmed url) @ path))"
    using find_str_first [OF i] whole by auto
  ultimately show ?R using pre by blast
next
  assume ?R
  then obtain host n where pre: "prefix ''/pub/'' path" and l: "last path \<noteq> CHR ''/''"
    and url: "url = (host @ path) @ replicate n CHR ''/''"
    and first: "\<And>i. i < length host \<Longrightarrow> \<not> prefix ''/pub/'' (drop i (host @ path))"
    by auto
  have "path \<noteq> []" using pre by auto
  then have t: "trimmed url = host @ path"
    using l unfolding url trimmed_slashes
    by (cases path rule: rev_cases) (auto simp: trimmed_def trim_end_char_def)
  then have "contains (trimmed url) ''/pub/''"
    using pre unfolding contains_iff prefix_def by metis
  then obtain i where i: "find_str (trimmed url) ''/pub/'' = Some i"
    using find_str_None [of "trimmed url" "''/pub/''"] by blast
  moreover have "i = length host"
    using first [of i] find_str_Some [OF i] find_str_first [OF i, of "length host"] pre t
    by (cases i "length host" rule: linorder_cases) auto
  ultimately show ?L by (simp add: pub_path_def t)
qed

text \<open>
  C28 (safety). A write or a deletion goes where its URL says, below \<^verbatim>\<open>/pub/\<close>, or nowhere. A URL without
  \<^verbatim>\<open>/pub/\<close> is refused with nothing sent and nothing changed in the cache. Otherwise the path is what the URL
  has from its first \<^verbatim>\<open>/pub/\<close> on, without slashes at the end, and whatever becomes of the call, every change
  it requests of the homeserver, at most two, is of that path and with the content given.
\<close>

theorem writes_stay_below_pub:
  assumes "logs_changes C log"
  shows "(pub_path url = None \<longleftrightarrow> \<not> contains (trimmed url) ''/pub/'') \<and>
   (pub_path url = None \<longrightarrow>
      put_bytes_with_session C url content secret st w = (create_response_vector True bad_url, st, w) \<and>
      put_with_session C url text secret st w = (create_response_vector True bad_url, st, w) \<and>
      delete_with_session C url secret st w = (create_response_vector True bad_url, st, w)) \<and>
   (\<forall>path. pub_path url = Some path \<longrightarrow>
      prefix ''/pub/'' path \<and> last path \<noteq> CHR ''/'' \<and>
      (\<exists>host n. url = host @ path @ replicate n CHR ''/'' \<and>
         (\<forall>i<length host. \<not> prefix ''/pub/'' (drop i (host @ path)))) \<and>
      (\<exists>b. requested log (PutTo path content) b w (snd (snd (put_bytes_with_session C url content secret st w)))) \<and>
      (\<exists>b. requested log (PutTo path (text_bytes text)) b w (snd (snd (put_with_session C url text secret st w)))) \<and>
      (\<exists>b. requested log (DeleteAt path) b w (snd (snd (delete_with_session C url secret st w)))))"
proof (intro conjI allI impI)
  note calls = assms [unfolded logs_changes_def]
  note requests = with_session_requests [where log = log and restore = "call_restore C"]
  fix path assume p: "pub_path url = Some path"
  then show "prefix ''/pub/'' path" "last path \<noteq> CHR ''/''" "\<exists>host n. url = host @ path @ replicate n CHR ''/'' \<and>
      (\<forall>i<length host. \<not> prefix ''/pub/'' (drop i (host @ path)))"
    unfolding pub_path_iff by blast+
  show "\<exists>b. requested log (PutTo path content) b w (snd (snd (put_bytes_with_session C url content secret st w)))"
    using calls p by (auto simp: put_bytes_with_session_def split: prod.splits sum.splits dest!: requests [rotated -1])
  show "\<exists>b. requested log (PutTo path (text_bytes text)) b w (snd (snd (put_with_session C url text secret st w)))"
    using calls p by (auto simp: put_with_session_def Let_def split: prod.splits sum.splits dest!: requests [rotated -1])
  show "\<exists>b. requested log (DeleteAt path) b w (snd (snd (delete_with_session C url secret st w)))"
    using calls p by (auto simp: delete_with_session_def split: prod.splits sum.splits dest!: requests [rotated -1])
next
  show "pub_path url = None \<longleftrightarrow> \<not> contains (trimmed url) ''/pub/''"
    by (simp add: pub_path_def find_str_None)
qed (simp_all add: put_bytes_with_session_def put_with_session_def delete_with_session_def)

text \<open>An SDK that logs: a request on session 0 is refused as the session's, all others are accepted.\<close>

definition refusal :: sdk_error where
  "refusal = \<lparr>display = ''401'', sources = [], variant = Request (ReqServer 401 ''401'')\<rparr>"

definition logging_calls :: "(nat, nat, nat, (change \<times> bool) list) session_calls" where
  "logging_calls =
     (let act = \<lambda>x s w. (if s = 0 then Inl refusal else Inr (), w @ [(x, s \<noteq> (0 :: nat))]) in
      \<lparr>call_restore = \<lambda>_ w. (Inr 7, w), call_put = \<lambda>s p b. act (PutTo p b) s,
       call_delete = \<lambda>s p. act (DeleteAt p) s, call_signout = act SignOut, call_list_grants = \<lambda>_ w. (Inr [], w),
       call_revoke = \<lambda>s g. act (RevokeId g) s, call_revalidate = \<lambda>_ w. (Inr True, w), grant_id_try_from = Inr,
       session_grant = \<lambda>_. None, session_grant_id = \<lambda>_ w. (''g'', w), from_shared_secret = \<lambda>_. Inr 0,
       from_grant_credential = \<lambda>c. c, session_texts = example_texts\<rparr>)"

lemma logging_calls_log: "logs_changes logging_calls (\<lambda>w. w)"
  by (simp add: logs_changes_def logging_calls_def Let_def)

theorem writes_stay_below_pub_witness:
  "pub_path ''pubky://k/pub/a/pub/b//'' = Some ''/pub/a/pub/b'' \<and>
   (\<exists>b. requested (\<lambda>w. w) (DeleteAt ''/pub/a/pub/b'') b []
      (snd (snd (delete_with_session logging_calls ''pubky://k/pub/a/pub/b//'' ''s'' (store_new 1) [])))) \<and>
   put_with_session logging_calls ''pubky://k/priv/a'' ''x'' ''s'' (store_new 1) [] =
     (create_response_vector True bad_url, store_new 1, [])"
proof -
  have "pub_path ''pubky://k/pub/a/pub/b//'' = Some ''/pub/a/pub/b''" "pub_path ''pubky://k/priv/a'' = None"
    by (simp_all add: pub_path_def trimmed_def trim_end_char_def)
  then show ?thesis
    using writes_stay_below_pub [OF logging_calls_log, of "''pubky://k/pub/a/pub/b//''" "[]" "''s''" "store_new 1" "[]" "''x''"]
      writes_stay_below_pub [OF logging_calls_log, of "''pubky://k/priv/a''" "[]" "''s''" "store_new 1" "[]" "''x''"]
    by blast
qed

text \<open>The flag of an answer: \<^verbatim>\<open>true\<close> reports a failure.\<close>

definition failed_flag :: "string list \<Rightarrow> bool" where
  "failed_flag v \<longleftrightarrow> v ! 0 = ''true''"

lemma failed_flag_vector [simp]: "failed_flag (create_response_vector b d) = b"
  by (cases b) (simp_all add: failed_flag_def create_response_vector_def show_bool_def)

lemma forget_grant_log:
  assumes "\<And>g w. log (snd (gid_of g w)) = log w"
  shows "log (snd (forget_grant grant_of gid_of gid st w)) = log w"
proof -
  have "log (snd (forget_grant_from grant_of gid_of gid xs st w)) = log w" for xs
    using assms
    by (induction grant_of gid_of gid xs st w rule: forget_grant_from.induct)
      (auto split: option.splits prod.splits, metis snd_conv)
  then show ?thesis by (simp add: forget_grant_def)
qed

lemma requested_after: "log w1 = log w \<Longrightarrow> requested log x b w1 w' \<Longrightarrow> requested log x b w w'"
  by (simp add: requested_def)

lemma requested_before: "requested log x b w w1 \<Longrightarrow> log w' = log w1 \<Longrightarrow> requested log x b w w'"
  by (simp add: requested_def)

text \<open>
  What an answer reports: the one change that was requested, accepted exactly if no failure is flagged; or,
  when the arguments name no change, a failure, with nothing requested.
\<close>

definition reported ::
  "('w \<Rightarrow> (change \<times> bool) list) \<Rightarrow> change option \<Rightarrow> 'w \<Rightarrow> string list \<times> 'st \<times> 'w \<Rightarrow> bool" where
  "reported log x w answer \<longleftrightarrow>
     (case x of
        None \<Rightarrow> failed_flag (fst answer) \<and> log (snd (snd answer)) = log w
      | Some x \<Rightarrow> requested log x (\<not> failed_flag (fst answer)) w (snd (snd answer)))"

lemma write_flags:
  assumes "logs_changes C log"
  shows "reported log (map_option (\<lambda>path. PutTo path content) (pub_path url)) w
      (put_bytes_with_session C url content secret st w)"
    and "reported log (map_option DeleteAt (pub_path url)) w (delete_with_session C url secret st w)"
    and "reported log (case grant_id_try_from C gid of Inl _ \<Rightarrow> None | Inr g \<Rightarrow> Some (RevokeId g)) w
      (revoke_grant C secret gid st w)"
proof -
  note calls = assms [unfolded logs_changes_def]
  have restore: "log (snd (call_restore C k v)) = log v" for k v using calls by simp
  note requests = with_session_requests [where log = log and restore = "call_restore C", OF restore]
  show "reported log (map_option (\<lambda>path. PutTo path content) (pub_path url)) w
      (put_bytes_with_session C url content secret st w)"
  proof (cases "pub_path url")
    case (Some path)
    then show ?thesis
      using requests [where operation = "\<lambda>s. call_put C s path content" and x = "PutTo path content" and st = st] calls
      by (fastforce simp: reported_def put_bytes_with_session_def split: prod.splits sum.splits)
  qed (auto simp: reported_def put_bytes_with_session_def)
  show "reported log (map_option DeleteAt (pub_path url)) w (delete_with_session C url secret st w)"
  proof (cases "pub_path url")
    case (Some path)
    then show ?thesis
      using requests [where operation = "\<lambda>s. call_delete C s path" and x = "DeleteAt path" and st = st] calls
      by (fastforce simp: reported_def delete_with_session_def split: prod.splits sum.splits)
  qed (auto simp: reported_def delete_with_session_def)
  have kept: "log v' = log v" if "forget_grant (session_grant C) (session_grant_id C) g st v = (st', v')" for g st v st' v'
    using forget_grant_log [where gid_of = "session_grant_id C" and log = log] that calls by (metis snd_conv)
  show "reported log (case grant_id_try_from C gid of Inl _ \<Rightarrow> None | Inr g \<Rightarrow> Some (RevokeId g)) w
      (revoke_grant C secret gid st w)"
  proof (cases "grant_id_try_from C gid")
    case (Inr g)
    then show ?thesis
      using requests [where operation = "\<lambda>s. call_revoke C s g" and x = "RevokeId g" and st = st] calls
      by (fastforce simp: reported_def revoke_grant_def split: prod.splits sum.splits dest: kept intro: requested_before)
  qed (auto simp: reported_def revoke_grant_def)
qed

lemma sign_out_flags:
  assumes "logs_changes C log"
  shows "requested log SignOut (\<not> failed_flag (fst (sign_out C secret st w))) w (snd (snd (sign_out C secret st w)))"
    and "requested log SignOut (\<not> failed_flag (fst (revoke_own_grant C secret st w))) w
      (snd (snd (revoke_own_grant C secret st w)))"
proof -
  note calls = assms [unfolded logs_changes_def]
  have restore: "log (snd (call_restore C k v)) = log v" for k v using calls by simp
  note kept = sessions_log [where log = log and restore = "call_restore C", OF restore]
  have out: "log v' = log v @ [(SignOut, \<not> isl a)]" if "call_signout C s v = (a, v')" for s v a v'
    using calls that by (metis fst_conv snd_conv)
  show "requested log SignOut (\<not> failed_flag (fst (sign_out C secret st w))) w (snd (snd (sign_out C secret st w)))"
    by (auto simp: sign_out_def Let_def split: prod.splits sum.splits dest!: kept(1) out
        intro: requested_nothing requested_once)
  show "requested log SignOut (\<not> failed_flag (fst (revoke_own_grant C secret st w))) w
      (snd (snd (revoke_own_grant C secret st w)))"
    by (auto simp: revoke_own_grant_def Let_def split: prod.splits sum.splits dest!: kept(3) out
        intro: requested_nothing requested_once requested_twice)
qed



end
