(* ===== verification/Body_Limit.thy ===== *)
theory Body_Limit
  imports Sdk_Errors
begin

section \<open>The ceiling on response bodies\<close>

text \<open>
  Models \<^verbatim>\<open>src/body_limit.rs\<close>. A \<^verbatim>\<open>reqwest::Response\<close> is what the source reads of it: the declared
  \<^verbatim>\<open>Content-Length\<close> and what the successive calls of \<^verbatim>\<open>chunk()\<close> answer, a chunk or an error, until the
  list ends (\<^verbatim>\<open>Ok(None)\<close>). The reading functions also return the chunks that were not asked for, so
  that a theorem can say when reading stops. Lengths of vectors are \<^typ>\<open>nat\<close>; their sum saturates at
  the largest \<^verbatim>\<open>u64\<close>, as in the source.
\<close>

definition DEFAULT_MAX_BODY_BYTES :: u64 where
  "DEFAULT_MAX_BODY_BYTES = 50 * 1024 * 1024"

definition configure_max_body_bytes :: "u64 \<Rightarrow> u64 \<Rightarrow> u64 \<times> u64" where
  "configure_max_body_bytes max_bytes stored =
     (let stored = (if max_bytes > 0 then max_bytes else stored) in (stored, stored))"

datatype body_error =
    TooLarge "u64 option" u64
  | BodyTransport reqwest_error

fun body_error_display :: "body_error \<Rightarrow> string" where
  "body_error_display (TooLarge (Some declared) limit) =
     ''response body of '' @ show_nat (unat declared) @ '' bytes exceeds the '' @
     show_nat (unat limit) @ ''-byte limit''"
| "body_error_display (TooLarge None limit) =
     ''response body exceeds the '' @ show_nat (unat limit) @ ''-byte limit''"
| "body_error_display (BodyTransport e) = full_error_chain e"

record response =
  content_length :: "u64 option"
  chunks :: "(reqwest_error + bytes) list"

definition saturating_add_u64 :: "nat \<Rightarrow> nat \<Rightarrow> nat" where
  "saturating_add_u64 a b = min (a + b) (2 ^ 64 - 1)"

fun read_chunks ::
  "u64 \<Rightarrow> bytes \<Rightarrow> (reqwest_error + bytes) list \<Rightarrow> (body_error + bytes) \<times> (reqwest_error + bytes) list" where
  "read_chunks limit body [] = (Inr body, [])"
| "read_chunks limit body (Inl e # cs) = (Inl (BodyTransport e), cs)"
| "read_chunks limit body (Inr chunk # cs) =
     (if saturating_add_u64 (length body) (length chunk) > unat limit then (Inl (TooLarge None limit), cs)
      else read_chunks limit (body @ chunk) cs)"

definition read_up_to :: "response \<Rightarrow> u64 \<Rightarrow> (body_error + bytes) \<times> (reqwest_error + bytes) list" where
  "read_up_to r limit =
     (case content_length r of
        Some declared \<Rightarrow>
          if declared > limit then (Inl (TooLarge (Some declared) limit), chunks r)
          else read_chunks limit [] (chunks r)
      | None \<Rightarrow> read_chunks limit [] (chunks r))"

definition read_capped :: "u64 \<Rightarrow> response \<Rightarrow> (body_error + bytes) \<times> (reqwest_error + bytes) list" where
  "read_capped stored r = read_up_to r stored"

subsection \<open>What is read\<close>

text \<open>The bytes of the chunks up to the first error, and whether there is one.\<close>

fun received :: "(reqwest_error + bytes) list \<Rightarrow> bytes" where
  "received (Inr c # cs) = c @ received cs"
| "received _ = []"

definition intact :: "(reqwest_error + bytes) list \<Rightarrow> bool" where
  "intact cs \<longleftrightarrow> list_all (\<lambda>c. \<not> isl c) cs"

lemma sat_over: "limit < 2 ^ 64 - 1 \<Longrightarrow> saturating_add_u64 a b > limit \<longleftrightarrow> a + b > limit"
  by (auto simp: saturating_add_u64_def min_def)

lemma read_chunks_ok:
  "unat limit < 2 ^ 64 - 1 \<Longrightarrow> length body \<le> unat limit \<Longrightarrow>
   (\<exists>rest. read_chunks limit body cs = (Inr b, rest)) \<longleftrightarrow>
     intact cs \<and> length (body @ received cs) \<le> unat limit \<and> b = body @ received cs"
proof (induction limit body cs rule: read_chunks.induct)
  case (3 limit body chunk cs)
  then show ?case
    using sat_over [OF 3(2), of "length body" "length chunk"] by (auto simp: intact_def)
qed (auto simp: intact_def)

text \<open>What the loop holds when it asks for a chunk, whatever that chunk is, is within the limit.\<close>

lemma read_chunks_prefix:
  "unat limit < 2 ^ 64 - 1 \<Longrightarrow> length body \<le> unat limit \<Longrightarrow> read_chunks limit body cs = (r, rest) \<Longrightarrow>
   \<exists>seen. cs = seen @ rest \<and> length (body @ received (butlast seen)) \<le> unat limit"
proof (induction limit body cs rule: read_chunks.induct)
  case (3 limit body chunk cs)
  show ?case
  proof (cases "length body + length chunk > unat limit")
    case True
    with 3 sat_over [OF 3(2), of "length body" "length chunk"] show ?thesis
      by (intro exI [of _ "[Inr chunk]"]) auto
  next
    case False
    with 3 sat_over [OF 3(2), of "length body" "length chunk"] obtain seen where
      "cs = seen @ rest" "length ((body @ chunk) @ received (butlast seen)) \<le> unat limit" by auto
    with 3(3) show ?thesis
      by (intro exI [of _ "Inr chunk # seen"]) auto
  qed
next
  case (2 limit body e cs)
  then show ?case by (intro exI [of _ "[Inl e]"]) auto
qed auto

lemma limit_below_max: "limit \<noteq> - 1 \<Longrightarrow> unat (limit :: u64) < 2 ^ 64 - 1"
proof -
  assume "limit \<noteq> - 1"
  then have "unat limit \<noteq> unat (- 1 :: u64)" by (simp add: word_unat_eq_iff)
  then show ?thesis using unsigned_less [of limit, where ?'a = nat] by (simp add: unsigned_minus_1_eq_mask mask_eq_exp_minus_1)
qed

subsection \<open>Properties\<close>

definition example_response :: "u64 option \<Rightarrow> response" where
  "example_response n = \<lparr>content_length = n, chunks = [Inr [1, 2], Inr [3]]\<rparr>"

lemma body_accepted_iff_within_limit:
  assumes "limit \<noteq> - 1"
  shows "(\<exists>rest. read_up_to r limit = (Inr b, rest)) \<longleftrightarrow>
    (\<forall>n. content_length r = Some n \<longrightarrow> n \<le> limit) \<and> intact (chunks r) \<and>
    length (received (chunks r)) \<le> unat limit \<and> b = received (chunks r)"
  using read_chunks_ok [OF limit_below_max [OF assms], of "[]" "chunks r" b]
  by (auto simp: read_up_to_def not_less split: option.splits)

lemma read_never_holds_more_than_limit:
  assumes "limit \<noteq> - 1" and "read_up_to r limit = (res, rest)"
  shows "(\<exists>seen. chunks r = seen @ rest \<and> length (received (butlast seen)) \<le> unat limit) \<and>
    (\<forall>n. content_length r = Some n \<and> n > limit \<longrightarrow> res = Inl (TooLarge (Some n) limit) \<and> rest = chunks r)"
  using assms read_chunks_prefix [OF limit_below_max [OF assms(1)], of "[]" "chunks r" res rest]
  by (auto simp: read_up_to_def split: option.splits if_splits)

text \<open>
  C27 (bounds). A read accepts exactly the bodies within the limit, and a hostile server cannot make it hold
  more. It answers a body if and only if the declared length is not over the limit, every chunk arrives and
  together they fit, and then it answers all of them; whatever it ends with, the chunks collected before
  the last one it asked for fit the limit, nothing is asked for after a refusal, and a declared length over
  the limit is refused with nothing read.
\<close>

theorem capped_read_exact_and_bounded:
  assumes "limit \<noteq> - 1" and "read_up_to r limit = (res, rest)"
  shows "((\<exists>b. res = Inr b) \<longleftrightarrow> (\<forall>n. content_length r = Some n \<longrightarrow> n \<le> limit) \<and> intact (chunks r) \<and>
       length (received (chunks r)) \<le> unat limit) \<and>
    (\<forall>b. res = Inr b \<longrightarrow> b = received (chunks r)) \<and>
    (\<exists>seen. chunks r = seen @ rest \<and> length (received (butlast seen)) \<le> unat limit) \<and>
    (\<forall>n. content_length r = Some n \<and> n > limit \<longrightarrow> res = Inl (TooLarge (Some n) limit) \<and> rest = chunks r)"
  using body_accepted_iff_within_limit [OF assms(1), of r] read_never_holds_more_than_limit [OF assms] assms(2)
  by (metis prod.inject)

theorem capped_read_exact_and_bounded_witness:
  "fst (read_up_to (example_response None) 3) = Inr [1, 2, 3] \<and> isl (fst (read_up_to (example_response None) 2)) \<and>
   read_up_to (example_response (Some 900)) 2 = (Inl (TooLarge (Some 900) 2), chunks (example_response (Some 900)))"
proof -
  note exact = capped_read_exact_and_bounded [OF _ prod.collapse [symmetric]]
  have "\<exists>b. fst (read_up_to (example_response None) 3) = Inr b"
    using exact [of 3 "example_response None"] by (simp add: example_response_def intact_def)
  then have "fst (read_up_to (example_response None) 3) = Inr [1, 2, 3]"
    using exact [of 3 "example_response None"] by (auto simp: example_response_def)
  moreover have "isl (fst (read_up_to (example_response None) 2))"
    using exact [of 2 "example_response None"]
    by (cases "fst (read_up_to (example_response None) 2)") (auto simp: example_response_def)
  moreover have "read_up_to (example_response (Some 900)) 2 =
      (Inl (TooLarge (Some 900) 2), chunks (example_response (Some 900)))"
    using exact [of 2 "example_response (Some 900)"] by (auto simp: example_response_def intro: prod_eqI)
  ultimately show ?thesis by blast
qed

end
