(* ===== verification/Storage_Api.thy ===== *)
theory Storage_Api
  imports Body_Limit
begin

section \<open>Storage and storage locks\<close>

text \<open>
  Models \<^verbatim>\<open>src/storage.rs\<close> and \<^verbatim>\<open>src/locks.rs\<close> with the records of \<^verbatim>\<open>src/types.rs\<close> they answer. The SDK's
  storage calls, its path parsers and its listing builder are parameters; the builder is driven by the
  list of calls made on it. An error of an SDK call is converted as the question mark does
  (\<open>from_sdk_error\<close>); the path parsers answer the converted error.
\<close>

type_synonym 'a core_result = "pubky_core_error + 'a"

definition converted :: "(sdk_error + 'a) \<times> 'w \<Rightarrow> 'a core_result \<times> 'w" where
  "converted r = (map_sum from_sdk_error (\<lambda>a. a) (fst r), snd r)"

lemma converted_simps [simp]:
  "converted (Inl e, w) = (Inl (from_sdk_error e), w)" "converted (Inr a, w) = (Inr a, w)"
  by (simp_all add: converted_def)

subsection \<open>Data\<close>

record storage_list_options =
  opt_reverse :: bool
  opt_shallow :: bool
  opt_limit :: "u16 option"
  opt_cursor :: "string option"

record storage_list_page =
  page_entries :: "string list"
  next_cursor :: "string option"

record storage_resource_stats =
  stats_content_length :: "u64 option"
  stats_content_type :: "string option"
  last_modified_ms :: "u64 option"
  stats_etag :: "string option"

text \<open>The SDK's \<^verbatim>\<open>ResourceStats\<close>; a \<^verbatim>\<open>SystemTime\<close> is nanoseconds from the Unix epoch.\<close>

record resource_stats_sdk =
  sdk_content_length :: "u64 option"
  sdk_content_type :: "string option"
  sdk_last_modified :: "int option"
  sdk_etag :: "string option"

datatype list_call = ReverseBy bool | ShallowBy bool | LimitTo u16 | FromCursor string

record storage_lock_info =
  lock_path :: string
  lock_token :: string
  timeout_seconds :: u64

record ('s, 'l, 'w) storage_env =
  body_cap :: "'w \<Rightarrow> u64"
  session_restore :: "string \<Rightarrow> 'w \<Rightarrow> (sdk_error + 's) \<times> 'w"
  session_owner :: "'s \<Rightarrow> string"
  resource_path_parse :: "string \<Rightarrow> string core_result"
  resource_parse :: "string \<Rightarrow> (string \<times> string) core_result"
  public_get :: "string \<Rightarrow> 'w \<Rightarrow> (sdk_error + response) \<times> 'w"
  public_exists_call :: "string \<Rightarrow> 'w \<Rightarrow> (sdk_error + bool) \<times> 'w"
  public_stats_call :: "string \<Rightarrow> 'w \<Rightarrow> (sdk_error + resource_stats_sdk option) \<times> 'w"
  public_list_open :: "string \<Rightarrow> (sdk_error + unit)"
  public_list_send :: "string \<Rightarrow> list_call list \<Rightarrow> 'w \<Rightarrow> (sdk_error + string list) \<times> 'w"
  storage_get :: "'s \<Rightarrow> string \<Rightarrow> 'w \<Rightarrow> (sdk_error + response) \<times> 'w"
  storage_exists :: "'s \<Rightarrow> string \<Rightarrow> 'w \<Rightarrow> (sdk_error + bool) \<times> 'w"
  storage_stats :: "'s \<Rightarrow> string \<Rightarrow> 'w \<Rightarrow> (sdk_error + resource_stats_sdk option) \<times> 'w"
  storage_list_open :: "'s \<Rightarrow> string \<Rightarrow> (sdk_error + unit)"
  storage_list_send :: "'s \<Rightarrow> string \<Rightarrow> list_call list \<Rightarrow> 'w \<Rightarrow> (sdk_error + string list) \<times> 'w"
  storage_put :: "'s \<Rightarrow> string \<Rightarrow> bytes \<Rightarrow> 'w \<Rightarrow> (sdk_error + unit) \<times> 'w"
  storage_delete :: "'s \<Rightarrow> string \<Rightarrow> 'w \<Rightarrow> (sdk_error + unit) \<times> 'w"
  storage_lock :: "'s \<Rightarrow> string \<Rightarrow> duration \<Rightarrow> 'w \<Rightarrow> (sdk_error + 'l) \<times> 'w"
  lock_view :: "'l \<Rightarrow> string \<times> string \<times> duration"
  refresh_lock :: "'s \<Rightarrow> 'l \<Rightarrow> duration \<Rightarrow> 'w \<Rightarrow> (sdk_error + 'l) \<times> 'w"
  put_locked :: "'s \<Rightarrow> 'l \<Rightarrow> bytes \<Rightarrow> 'w \<Rightarrow> (sdk_error + unit) \<times> 'w"
  delete_locked :: "'s \<Rightarrow> 'l \<Rightarrow> 'w \<Rightarrow> (sdk_error + unit) \<times> 'w"
  sdk_unlock :: "'s \<Rightarrow> 'l \<Rightarrow> 'w \<Rightarrow> (sdk_error + unit) \<times> 'w"

subsection \<open>Storage\<close>

definition storage_restore_session ::
  "('s, 'l, 'w) storage_env \<Rightarrow> string \<Rightarrow> 'w \<Rightarrow> 's core_result \<times> 'w" where
  "storage_restore_session E secret w = converted (session_restore E secret w)"

definition session_path :: "('s, 'l, 'w) storage_env \<Rightarrow> 's \<Rightarrow> string \<Rightarrow> string core_result" where
  "session_path E session input =
     (if prefix ''/'' input then resource_path_parse E input
      else and_try (resource_parse E input)
        (\<lambda>(owner, path).
           if owner \<noteq> session_owner E session
           then Inl (Validation ''addressed resource belongs to a different Pubky'')
           else Inr path))"

definition read_body :: "('s, 'l, 'w) storage_env \<Rightarrow> response \<Rightarrow> 'w \<Rightarrow> bytes core_result \<times> 'w" where
  "read_body E r w =
     (case fst (read_capped (body_cap E w) r) of
        Inl (TooLarge declared limit) \<Rightarrow> Inl (Validation (body_error_display (TooLarge declared limit)))
      | Inl (BodyTransport e) \<Rightarrow> Inl (Transport (full_error_chain e))
      | Inr b \<Rightarrow> Inr b, w)"

definition resource_stats :: "resource_stats_sdk \<Rightarrow> storage_resource_stats" where
  "resource_stats st =
     \<lparr>stats_content_length = sdk_content_length st, stats_content_type = sdk_content_type st,
      last_modified_ms =
        (case sdk_last_modified st of
           None \<Rightarrow> None
         | Some t \<Rightarrow>
             if t < 0 then None
             else let ms = nat t div 1000000 in if ms < 2 ^ 64 then Some (of_nat ms) else None),
      stats_etag = sdk_etag st\<rparr>"

definition apply_list_options :: "storage_list_options \<Rightarrow> list_call list" where
  "apply_list_options opts =
     [ReverseBy (opt_reverse opts), ShallowBy (opt_shallow opts)] @
     (case opt_limit opts of None \<Rightarrow> [] | Some n \<Rightarrow> [LimitTo n]) @
     (case opt_cursor opts of None \<Rightarrow> [] | Some c \<Rightarrow> [FromCursor c])"

definition list_page :: "string list \<Rightarrow> storage_list_page" where
  "list_page urls = \<lparr>page_entries = urls, next_cursor = (if urls = [] then None else Some (last urls))\<rparr>"

definition public_get_bytes :: "('s, 'l, 'w) storage_env \<Rightarrow> string \<Rightarrow> 'w \<Rightarrow> bytes core_result \<times> 'w" where
  "public_get_bytes E address w = and_then (converted (public_get E address w)) (read_body E)"

definition public_exists :: "('s, 'l, 'w) storage_env \<Rightarrow> string \<Rightarrow> 'w \<Rightarrow> bool core_result \<times> 'w" where
  "public_exists E address w = converted (public_exists_call E address w)"

definition public_stats ::
  "('s, 'l, 'w) storage_env \<Rightarrow> string \<Rightarrow> 'w \<Rightarrow> storage_resource_stats option core_result \<times> 'w" where
  "public_stats E address w =
     and_then (converted (public_stats_call E address w)) (\<lambda>st w. (Inr (map_option resource_stats st), w))"

definition public_list ::
  "('s, 'l, 'w) storage_env \<Rightarrow> string \<Rightarrow> storage_list_options \<Rightarrow> 'w \<Rightarrow> storage_list_page core_result \<times> 'w" where
  "public_list E address opts w =
     and_then (converted (public_list_open E address, w)) (\<lambda>_ w.
       and_then (converted (public_list_send E address (apply_list_options opts) w))
         (\<lambda>urls w. (Inr (list_page urls), w)))"

text \<open>Every call on a session's own storage restores the session, resolves the path and then acts.\<close>

definition on_session_path ::
  "('s, 'l, 'w) storage_env \<Rightarrow> string \<Rightarrow> string \<Rightarrow> ('s \<Rightarrow> string \<Rightarrow> 'w \<Rightarrow> 'a core_result \<times> 'w) \<Rightarrow> 'w \<Rightarrow>
   'a core_result \<times> 'w" where
  "on_session_path E path_or_address secret act w =
     and_then (storage_restore_session E secret w) (\<lambda>session w.
       and_then (session_path E session path_or_address, w) (act session))"

definition session_get_bytes ::
  "('s, 'l, 'w) storage_env \<Rightarrow> string \<Rightarrow> string \<Rightarrow> 'w \<Rightarrow> bytes core_result \<times> 'w" where
  "session_get_bytes E poa secret w =
     on_session_path E poa secret (\<lambda>s path w.
       and_then (converted (storage_get E s path w)) (read_body E)) w"

definition session_exists ::
  "('s, 'l, 'w) storage_env \<Rightarrow> string \<Rightarrow> string \<Rightarrow> 'w \<Rightarrow> bool core_result \<times> 'w" where
  "session_exists E poa secret w =
     on_session_path E poa secret (\<lambda>s path w. converted (storage_exists E s path w)) w"

definition session_stats ::
  "('s, 'l, 'w) storage_env \<Rightarrow> string \<Rightarrow> string \<Rightarrow> 'w \<Rightarrow> storage_resource_stats option core_result \<times> 'w" where
  "session_stats E poa secret w =
     on_session_path E poa secret (\<lambda>s path w.
       and_then (converted (storage_stats E s path w)) (\<lambda>st w. (Inr (map_option resource_stats st), w))) w"

definition session_list ::
  "('s, 'l, 'w) storage_env \<Rightarrow> string \<Rightarrow> string \<Rightarrow> storage_list_options \<Rightarrow> 'w \<Rightarrow>
   storage_list_page core_result \<times> 'w" where
  "session_list E poa secret opts w =
     on_session_path E poa secret (\<lambda>s path w.
       and_then (converted (storage_list_open E s path, w)) (\<lambda>_ w.
         and_then (converted (storage_list_send E s path (apply_list_options opts) w))
           (\<lambda>urls w. (Inr (list_page urls), w)))) w"

definition session_put_bytes ::
  "('s, 'l, 'w) storage_env \<Rightarrow> string \<Rightarrow> bytes \<Rightarrow> string \<Rightarrow> 'w \<Rightarrow> unit core_result \<times> 'w" where
  "session_put_bytes E poa content secret w =
     on_session_path E poa secret (\<lambda>s path w. converted (storage_put E s path content w)) w"

definition session_delete ::
  "('s, 'l, 'w) storage_env \<Rightarrow> string \<Rightarrow> string \<Rightarrow> 'w \<Rightarrow> unit core_result \<times> 'w" where
  "session_delete E poa secret w =
     on_session_path E poa secret (\<lambda>s path w. converted (storage_delete E s path w)) w"

subsection \<open>Storage locks\<close>

text \<open>
  A lock object keeps its session's storage and the SDK lock until it is released. Its mutex is only
  held while the field is read or written, so SDK calls act on a world that includes the field.
\<close>

record ('s, 'l, 'v) lock_world =
  lock_storage :: 's
  lock_slot :: "'l option"
  lock_rest :: 'v

type_synonym ('s, 'l, 'v) lock_env = "('s, 'l, ('s, 'l, 'v) lock_world) storage_env"

definition current_lock :: "('s, 'l, 'v) lock_world \<Rightarrow> 'l core_result \<times> ('s, 'l, 'v) lock_world" where
  "current_lock w =
     (case lock_slot w of
        None \<Rightarrow> Inl (State ''Storage lock has already been released'')
      | Some l \<Rightarrow> Inr l, w)"

definition lock_info_of :: "('s, 'l, 'v) lock_env \<Rightarrow> 'l \<Rightarrow> storage_lock_info" where
  "lock_info_of E l =
     (case lock_view E l of
        (path, token, t) \<Rightarrow> \<lparr>lock_path = path, lock_token = token, timeout_seconds = of_nat (as_secs t)\<rparr>)"

definition lock_info ::
  "('s, 'l, 'v) lock_env \<Rightarrow> ('s, 'l, 'v) lock_world \<Rightarrow> storage_lock_info core_result \<times> ('s, 'l, 'v) lock_world" where
  "lock_info E w = and_then (current_lock w) (\<lambda>l w. (Inr (lock_info_of E l), w))"

definition lock_refresh ::
  "('s, 'l, 'v) lock_env \<Rightarrow> u64 \<Rightarrow> ('s, 'l, 'v) lock_world \<Rightarrow> storage_lock_info core_result \<times> ('s, 'l, 'v) lock_world" where
  "lock_refresh E secs w =
     and_then (current_lock w) (\<lambda>l w.
       and_then (converted (refresh_lock E (lock_storage w) l (from_secs (unat secs)) w)) (\<lambda>l w.
         (Inr (lock_info_of E l), w\<lparr>lock_slot := Some l\<rparr>)))"

definition lock_put ::
  "('s, 'l, 'v) lock_env \<Rightarrow> bytes \<Rightarrow> ('s, 'l, 'v) lock_world \<Rightarrow> unit core_result \<times> ('s, 'l, 'v) lock_world" where
  "lock_put E content w =
     and_then (current_lock w) (\<lambda>l w. converted (put_locked E (lock_storage w) l content w))"

definition lock_delete ::
  "('s, 'l, 'v) lock_env \<Rightarrow> ('s, 'l, 'v) lock_world \<Rightarrow> unit core_result \<times> ('s, 'l, 'v) lock_world" where
  "lock_delete E w =
     and_then (current_lock w) (\<lambda>l w. converted (delete_locked E (lock_storage w) l w))"

definition lock_unlock ::
  "('s, 'l, 'v) lock_env \<Rightarrow> ('s, 'l, 'v) lock_world \<Rightarrow> unit core_result \<times> ('s, 'l, 'v) lock_world" where
  "lock_unlock E w =
     and_then (current_lock w) (\<lambda>l w.
       and_then (converted (sdk_unlock E (lock_storage w) l w)) (\<lambda>_ w. (Inr (), w\<lparr>lock_slot := None\<rparr>)))"

definition session_lock ::
  "('s, 'l, 'w) storage_env \<Rightarrow> string \<Rightarrow> string \<Rightarrow> u64 \<Rightarrow> 'w \<Rightarrow> ('s \<times> 'l) core_result \<times> 'w" where
  "session_lock E poa secret secs w =
     on_session_path E poa secret (\<lambda>s path w.
       and_then (converted (storage_lock E s path (from_secs (unat secs)) w)) (\<lambda>l w. (Inr (s, l), w))) w"


subsection \<open>Properties\<close>

text \<open>
  An example: the session belongs to \<open>''me''\<close>, storage calls succeed and are counted in the world, and
  releasing a lock succeeds.
\<close>

definition example_storage :: "(unit, nat, (unit, nat, nat) lock_world) storage_env" where
  "example_storage =
     \<lparr>body_cap = \<lambda>_. 10, session_restore = \<lambda>_ w. (Inr (), w), session_owner = \<lambda>_. ''me'',
      resource_path_parse = Inr, resource_parse = \<lambda>a. Inr (takeWhile (\<lambda>c. c \<noteq> CHR ''/'') a, dropWhile (\<lambda>c. c \<noteq> CHR ''/'') a),
      public_get = \<lambda>_ w. (Inr \<lparr>content_length = None, chunks = []\<rparr>, w),
      public_exists_call = \<lambda>_ w. (Inr True, w), public_stats_call = \<lambda>_ w. (Inr None, w),
      public_list_open = \<lambda>_. Inr (), public_list_send = \<lambda>_ _ w. (Inr [], w),
      storage_get = \<lambda>_ _ w. (Inr \<lparr>content_length = None, chunks = []\<rparr>, w\<lparr>lock_rest := lock_rest w + 1\<rparr>),
      storage_exists = \<lambda>_ _ w. (Inr True, w), storage_stats = \<lambda>_ _ w. (Inr None, w),
      storage_list_open = \<lambda>_ _. Inr (), storage_list_send = \<lambda>_ _ _ w. (Inr [], w),
      storage_put = \<lambda>_ _ _ w. (Inr (), w\<lparr>lock_rest := lock_rest w + 1\<rparr>),
      storage_delete = \<lambda>_ _ w. (Inr (), w\<lparr>lock_rest := lock_rest w + 1\<rparr>),
      storage_lock = \<lambda>_ _ _ w. (Inr 1, w), lock_view = \<lambda>_. (''/pub/a'', ''t'', from_secs 60),
      refresh_lock = \<lambda>_ l _ w. (Inr l, w), put_locked = \<lambda>_ _ _ w. (Inr (), w),
      delete_locked = \<lambda>_ _ w. (Inr (), w), sdk_unlock = \<lambda>_ _ w. (Inr (), w)\<rparr>"

definition example_lock :: "nat option \<Rightarrow> (unit, nat, nat) lock_world" where
  "example_lock l = \<lparr>lock_storage = (), lock_slot = l, lock_rest = 0\<rparr>"

text \<open>
  A session never acts on another user's resource: when an address names a different owner
  than the session, reading, writing, deleting and locking all answer the same validation error, and
  nothing is requested after the session was restored.
\<close>

theorem foreign_address_makes_no_request:
  assumes "session_restore E secret w = (Inr s, w1)" and "\<not> prefix ''/'' address"
    and "resource_parse E address = Inr (owner, path)" and "owner \<noteq> session_owner E s"
  shows "let e = Validation ''addressed resource belongs to a different Pubky'' in
    session_get_bytes E address secret w = (Inl e, w1) \<and>
    session_put_bytes E address content secret w = (Inl e, w1) \<and>
    session_delete E address secret w = (Inl e, w1) \<and>
    session_lock E address secret secs w = (Inl e, w1)"
  using assms
  by (simp add: session_get_bytes_def session_put_bytes_def session_delete_def session_lock_def
      on_session_path_def storage_restore_session_def session_path_def Let_def)

theorem foreign_address_makes_no_request_witness:
  "session_put_bytes example_storage ''you/pub/a'' [1] ''s'' (example_lock None) =
     (Inl (Validation ''addressed resource belongs to a different Pubky''), example_lock None)"
  using foreign_address_makes_no_request [of example_storage "''s''" "example_lock None" "()" "example_lock None"
      "''you/pub/a''" "''you''" "''/pub/a''" "[1]" 0]
  by (simp add: example_storage_def Let_def)

text \<open>
  A released lock stays released for its owner: after a successful unlock every operation of
  the lock object answers that it has already been released, sends nothing and changes nothing.
\<close>

theorem released_lock_refuses_everything:
  assumes "lock_unlock E w = (Inr (), w')"
  shows "let e = State ''Storage lock has already been released'' in
    lock_info F w' = (Inl e, w') \<and> lock_refresh F secs w' = (Inl e, w') \<and>
    lock_put F content w' = (Inl e, w') \<and> lock_delete F w' = (Inl e, w') \<and> lock_unlock F w' = (Inl e, w')"
proof -
  have "lock_slot w' = None"
    using assms by (auto simp: lock_unlock_def and_then_Inr)
  then show ?thesis
    by (simp add: lock_info_def lock_refresh_def lock_put_def lock_delete_def lock_unlock_def
        current_lock_def Let_def)
qed

theorem released_lock_refuses_everything_witness:
  "fst (lock_put example_storage [1] (snd (lock_unlock example_storage (example_lock (Some 4))))) =
     Inl (State ''Storage lock has already been released'')"
  using released_lock_refuses_everything [of example_storage "example_lock (Some 4)"
      "snd (lock_unlock example_storage (example_lock (Some 4)))" example_storage 0 "[1]"]
  by (simp add: lock_unlock_def current_lock_def example_storage_def example_lock_def Let_def)

text \<open>
  C40 (safety). A refresh can bring a released lock back: when another thread releases the lock while the
  refresh waits for the homeserver and the refresh still succeeds, the refresh stores its copy of the
  lock again, and the object no longer says that it was released.
\<close>

theorem refresh_can_revive_released_lock:
  assumes "lock_slot w = Some l" and "lock_unlock E w = (Inr (), w1)"
    and "refresh_lock F (lock_storage w) l (from_secs (unat secs)) w = (Inr l', w1)"
  shows "\<exists>w'. lock_refresh F secs w = (Inr (lock_info_of F l'), w') \<and>
    lock_info F w' = (Inr (lock_info_of F l'), w')"
  using assms by (simp add: lock_refresh_def lock_info_def current_lock_def)

theorem refresh_can_revive_released_lock_witness:
  "let F = example_storage\<lparr>refresh_lock := \<lambda>_ l _ w. (Inr l, snd (lock_unlock example_storage w))\<rparr>;
       w = example_lock (Some 4)
   in \<exists>w'. lock_refresh F 60 w = (Inr (lock_info_of F 4), w') \<and> lock_slot w' \<noteq> None"
proof -
  let ?F = "example_storage\<lparr>refresh_lock := \<lambda>_ l _ w. (Inr l, snd (lock_unlock example_storage w))\<rparr>"
  let ?w = "example_lock (Some 4)"
  have "lock_unlock example_storage ?w = (Inr (), snd (lock_unlock example_storage ?w))"
    by (simp add: lock_unlock_def current_lock_def example_storage_def example_lock_def)
  from refresh_can_revive_released_lock [OF _ this, of 4 ?F 60 4]
  show ?thesis
    by (auto simp: example_lock_def lock_info_def current_lock_def Let_def split: option.splits)
qed

end
