(* ===== verification/Ffi_Calls.thy ===== *)
theory Ffi_Calls
  imports Ffi_Sessions Storage_Api Deep_Links
begin

section \<open>The exports that take a secret key, and the public reads\<close>

text \<open>
  Models the functions of \<^verbatim>\<open>src/lib.rs\<close> that sign up or sign in with a secret key, approve a sign-in, write
  with a key instead of a session, and read without either. The signer, the session storage and the parsers
  of the SDK are parameters; public reads use the calls of theory \<open>Storage_Api\<close>, and the key pair is that of
  theory \<open>Keys\<close>. A string is its UTF-8 bytes, one \<^typ>\<open>char\<close> each; \<^verbatim>\<open>str::from_utf8\<close> is modelled.
\<close>

record ('k, 's, 'w) signer_calls =
  signer_signin :: "'k \<Rightarrow> string \<Rightarrow> 'w \<Rightarrow> (sdk_error + 's) \<times> 'w"
  signer_signin_cookie :: "'k \<Rightarrow> 'w \<Rightarrow> (sdk_error + 's) \<times> 'w"
  signer_signup :: "'k \<Rightarrow> string \<Rightarrow> string option \<Rightarrow> 'w \<Rightarrow> (sdk_error + unit) \<times> 'w"
  signer_signup_cookie :: "'k \<Rightarrow> string \<Rightarrow> string option \<Rightarrow> 'w \<Rightarrow> (sdk_error + 's) \<times> 'w"
  signer_approve_auth :: "'k \<Rightarrow> string \<Rightarrow> 'w \<Rightarrow> (sdk_error + unit) \<times> 'w"
  signer_approve_auth_with :: "'k \<Rightarrow> string \<Rightarrow> string \<Rightarrow> 'w \<Rightarrow> (sdk_error + unit) \<times> 'w"
  signer_publish_homeserver_force :: "'k \<Rightarrow> string \<Rightarrow> 'w \<Rightarrow> (sdk_error + unit) \<times> 'w"
  signed_put :: "'s \<Rightarrow> string \<Rightarrow> bytes \<Rightarrow> 'w \<Rightarrow> (sdk_error + unit) \<times> 'w"
  signed_delete :: "'s \<Rightarrow> string \<Rightarrow> 'w \<Rightarrow> (sdk_error + unit) \<times> 'w"
  homeserver_of :: "string \<Rightarrow> 'w \<Rightarrow> (sdk_error + string option) \<times> 'w"
  parse_key :: "string \<Rightarrow> string result"
  parse_capabilities :: "string \<Rightarrow> string result"
  make_client_id :: "string \<Rightarrow> string result"
  signed_texts :: "('s, 'w) session_api"

subsection \<open>Writing with a secret key\<close>

text \<open>The beginning \<^verbatim>\<open>put\<close>, \<^verbatim>\<open>put_bytes\<close> and \<^verbatim>\<open>delete_file\<close> share: key pair, client id, sign-in.\<close>

definition signed_in ::
  "('k, 'm, 'w) key_api \<Rightarrow> ('k, 's, 'w) signer_calls \<Rightarrow> string \<Rightarrow> string \<Rightarrow> 'w \<Rightarrow> 's result \<times> 'w" where
  "signed_in K G secret_key client_id w =
     (case get_keypair_from_secret_key K secret_key of
        Inl e \<Rightarrow> (Inl e, w)
      | Inr keypair \<Rightarrow>
     (case parse_client_id (make_client_id G) client_id of
        Inl e \<Rightarrow> (Inl e, w)
      | Inr cid \<Rightarrow>
     (case signer_signin G keypair cid w of
        (Inl e, w) \<Rightarrow> (Inl (''Failed to sign in: '' @ full_error_chain e), w)
      | (Inr session, w) \<Rightarrow> (Inr session, w))))"

definition put_bytes ::
  "('k, 'm, 'w) key_api \<Rightarrow> ('k, 's, 'w) signer_calls \<Rightarrow> string \<Rightarrow> bytes \<Rightarrow> string \<Rightarrow> string \<Rightarrow> 'w \<Rightarrow>
   string list \<times> 'w" where
  "put_bytes K G url content secret_key client_id w =
     (case signed_in K G secret_key client_id w of
        (Inl e, w) \<Rightarrow> (create_response_vector True e, w)
      | (Inr session, w) \<Rightarrow>
     (case pub_path url of
        None \<Rightarrow> (create_response_vector True bad_url, w)
      | Some path \<Rightarrow>
     (case signed_put G session path content w of
        (Inr _, w) \<Rightarrow> (create_response_vector False (trimmed url), w)
      | (Inl e, w) \<Rightarrow> (create_response_vector True (''Failed to put: '' @ full_error_chain e), w))))"

definition put ::
  "('k, 'm, 'w) key_api \<Rightarrow> ('k, 's, 'w) signer_calls \<Rightarrow> string \<Rightarrow> string \<Rightarrow> string \<Rightarrow> string \<Rightarrow> 'w \<Rightarrow>
   string list \<times> 'w" where
  "put K G url content secret_key client_id w =
     (let content_bytes = text_bytes content in
      case signed_in K G secret_key client_id w of
        (Inl e, w) \<Rightarrow> (create_response_vector True e, w)
      | (Inr session, w) \<Rightarrow>
     (case pub_path url of
        None \<Rightarrow> (create_response_vector True bad_url, w)
      | Some path \<Rightarrow>
     (case signed_put G session path content_bytes w of
        (Inr _, w) \<Rightarrow> (create_response_vector False (trimmed url), w)
      | (Inl e, w) \<Rightarrow> (create_response_vector True (''Failed to put: '' @ full_error_chain e), w))))"

definition delete_file ::
  "('k, 'm, 'w) key_api \<Rightarrow> ('k, 's, 'w) signer_calls \<Rightarrow> string \<Rightarrow> string \<Rightarrow> string \<Rightarrow> 'w \<Rightarrow> string list \<times> 'w" where
  "delete_file K G url secret_key client_id w =
     (case signed_in K G secret_key client_id w of
        (Inl e, w) \<Rightarrow> (create_response_vector True e, w)
      | (Inr session, w) \<Rightarrow>
     (case pub_path url of
        None \<Rightarrow> (create_response_vector True bad_url, w)
      | Some path \<Rightarrow>
     (case signed_delete G session path w of
        (Inr _, w) \<Rightarrow> (create_response_vector False ''Deleted successfully'', w)
      | (Inl e, w) \<Rightarrow> (create_response_vector True (''Failed to delete: '' @ full_error_chain e), w))))"

subsection \<open>Signing up and signing in\<close>

definition sign_up_grant ::
  "('k, 'm, 'w) key_api \<Rightarrow> ('k, 's, 'w) signer_calls \<Rightarrow> string \<Rightarrow> string \<Rightarrow> string option \<Rightarrow> string \<Rightarrow> 'w \<Rightarrow>
   string list \<times> 'w" where
  "sign_up_grant K G secret_key homeserver signup_token client_id w =
     (case get_keypair_from_secret_key K secret_key of
        Inl e \<Rightarrow> (create_response_vector True e, w)
      | Inr keypair \<Rightarrow>
     (case parse_key G homeserver of
        Inl e \<Rightarrow> (create_response_vector True (''Invalid homeserver public key: '' @ e), w)
      | Inr hs \<Rightarrow>
     (case parse_client_id (make_client_id G) client_id of
        Inl e \<Rightarrow> (create_response_vector True e, w)
      | Inr cid \<Rightarrow>
     (case signer_signup G keypair hs signup_token w of
        (Inl e, w) \<Rightarrow> (create_response_vector True (''signup failure: '' @ full_error_chain e), w)
      | (Inr _, w) \<Rightarrow>
     (case signer_signin G keypair cid w of
        (Inl e, w) \<Rightarrow>
          (create_response_vector True (''signup succeeded but sign in failed: '' @ full_error_chain e), w)
      | (Inr session, w) \<Rightarrow>
          (case grant_session_text (signed_texts G) session w of (r, w) \<Rightarrow> (respond r, w)))))))"

definition sign_up ::
  "('k, 'm, 'w) key_api \<Rightarrow> ('k, 's, 'w) signer_calls \<Rightarrow> string \<Rightarrow> string \<Rightarrow> string option \<Rightarrow> string \<Rightarrow> 'w \<Rightarrow>
   string list \<times> 'w" where
  "sign_up K G secret_key homeserver signup_token client_id w =
     sign_up_grant K G secret_key homeserver signup_token client_id w"

text \<open>The answer to a cookie session: its text with the cookie secret.\<close>

definition cookie_answer :: "('s, 'w) session_api \<Rightarrow> 's \<Rightarrow> string list" where
  "cookie_answer S session =
     (case export_cookie_session_secret S session of
        Inl e \<Rightarrow> create_response_vector True e
      | Inr secret \<Rightarrow> create_response_vector False (session_to_json_with_cookie_secret S session secret))"

definition sign_up_cookie ::
  "('k, 'm, 'w) key_api \<Rightarrow> ('k, 's, 'w) signer_calls \<Rightarrow> string \<Rightarrow> string \<Rightarrow> string option \<Rightarrow> 'w \<Rightarrow>
   string list \<times> 'w" where
  "sign_up_cookie K G secret_key homeserver signup_token w =
     (case get_keypair_from_secret_key K secret_key of
        Inl e \<Rightarrow> (create_response_vector True e, w)
      | Inr keypair \<Rightarrow>
     (case parse_key G homeserver of
        Inl e \<Rightarrow> (create_response_vector True (''Invalid homeserver public key: '' @ e), w)
      | Inr hs \<Rightarrow>
     (case signer_signup_cookie G keypair hs signup_token w of
        (Inl e, w) \<Rightarrow> (create_response_vector True (''signup failure: '' @ full_error_chain e), w)
      | (Inr session, w) \<Rightarrow> (cookie_answer (signed_texts G) session, w))))"

definition sign_in_grant ::
  "('k, 'm, 'w) key_api \<Rightarrow> ('k, 's, 'w) signer_calls \<Rightarrow> string \<Rightarrow> string \<Rightarrow> 'w \<Rightarrow> string list \<times> 'w" where
  "sign_in_grant K G secret_key client_id w =
     (case signed_in K G secret_key client_id w of
        (Inl e, w) \<Rightarrow> (create_response_vector True e, w)
      | (Inr session, w) \<Rightarrow>
          (case grant_session_text (signed_texts G) session w of (r, w) \<Rightarrow> (respond r, w)))"

definition sign_in ::
  "('k, 'm, 'w) key_api \<Rightarrow> ('k, 's, 'w) signer_calls \<Rightarrow> string \<Rightarrow> string \<Rightarrow> 'w \<Rightarrow> string list \<times> 'w" where
  "sign_in K G secret_key client_id w = sign_in_grant K G secret_key client_id w"

definition sign_in_cookie ::
  "('k, 'm, 'w) key_api \<Rightarrow> ('k, 's, 'w) signer_calls \<Rightarrow> string \<Rightarrow> 'w \<Rightarrow> string list \<times> 'w" where
  "sign_in_cookie K G secret_key w =
     (case get_keypair_from_secret_key K secret_key of
        Inl e \<Rightarrow> (create_response_vector True e, w)
      | Inr keypair \<Rightarrow>
     (case signer_signin_cookie G keypair w of
        (Inl e, w) \<Rightarrow> (create_response_vector True (''Failed to sign in: '' @ full_error_chain e), w)
      | (Inr session, w) \<Rightarrow> (cookie_answer (signed_texts G) session, w)))"

definition republish_homeserver ::
  "('k, 'm, 'w) key_api \<Rightarrow> ('k, 's, 'w) signer_calls \<Rightarrow> string \<Rightarrow> string \<Rightarrow> 'w \<Rightarrow> string list \<times> 'w" where
  "republish_homeserver K G secret_key homeserver w =
     (case get_keypair_from_secret_key K secret_key of
        Inl e \<Rightarrow> (create_response_vector True e, w)
      | Inr keypair \<Rightarrow>
     (case parse_key G homeserver of
        Inl e \<Rightarrow> (create_response_vector True (''Invalid homeserver public key: '' @ e), w)
      | Inr hs \<Rightarrow>
     (case signer_publish_homeserver_force G keypair hs w of
        (Inr _, w) \<Rightarrow> (create_response_vector False ''Homeserver republished successfully'', w)
      | (Inl e, w) \<Rightarrow> (create_response_vector True (''Failed to republish homeserver: '' @ full_error_chain e), w))))"

definition get_homeserver ::
  "('k, 's, 'w) signer_calls \<Rightarrow> string \<Rightarrow> 'w \<Rightarrow> string list \<times> 'w" where
  "get_homeserver G pubky w =
     (case parse_key G pubky of
        Inl e \<Rightarrow> (create_response_vector True (''Invalid public key: '' @ e), w)
      | Inr key \<Rightarrow>
     (case homeserver_of G key w of
        (Inr (Some hs), w) \<Rightarrow> (create_response_vector False hs, w)
      | (Inr None, w) \<Rightarrow> (create_response_vector True ''No homeserver found for this public key'', w)
      | (Inl e, w) \<Rightarrow> (create_response_vector True (''Failed to get homeserver: '' @ full_error_chain e), w)))"

subsection \<open>Approving a sign-in\<close>

definition auth ::
  "('k, 'm, 'w) key_api \<Rightarrow> ('k, 's, 'w) signer_calls \<Rightarrow> string \<Rightarrow> string \<Rightarrow> 'w \<Rightarrow> string list \<times> 'w" where
  "auth K G url secret_key w =
     (case get_keypair_from_secret_key K secret_key of
        Inl e \<Rightarrow> (create_response_vector True e, w)
      | Inr keypair \<Rightarrow>
     (case signer_approve_auth G keypair url w of
        (Inr _, w) \<Rightarrow> (create_response_vector False ''Authorization success'', w)
      | (Inl e, w) \<Rightarrow> (create_response_vector True (''Authorization failure: '' @ full_error_chain e), w)))"

definition auth_with_capabilities ::
  "('k, 'm, 'w) key_api \<Rightarrow> ('k, 's, 'w) signer_calls \<Rightarrow> string \<Rightarrow> string \<Rightarrow> string \<Rightarrow> 'w \<Rightarrow> string list \<times> 'w" where
  "auth_with_capabilities K G url secret_key approved w =
     (case parse_capabilities G approved of
        Inl e \<Rightarrow> (create_response_vector True (''Invalid approved capabilities: '' @ e), w)
      | Inr capabilities \<Rightarrow>
     (case get_keypair_from_secret_key K secret_key of
        Inl e \<Rightarrow> (create_response_vector True e, w)
      | Inr keypair \<Rightarrow>
     (case signer_approve_auth_with G keypair url capabilities w of
        (Inr _, w) \<Rightarrow> (create_response_vector False ''Authorization success'', w)
      | (Inl e, w) \<Rightarrow> (create_response_vector True (''Authorization failure: '' @ full_error_chain e), w))))"

text \<open>\<^verbatim>\<open>serde_json::to_string\<close> of a derived record is a parameter; its error is not shown.\<close>

definition pubky_auth_details_to_json ::
  "(pubky_auth_details \<Rightarrow> string result) \<Rightarrow> pubky_auth_details \<Rightarrow> string result" where
  "pubky_auth_details_to_json serialize details =
     map_sum (\<lambda>_. ''Error serializing to JSON'') (\<lambda>t. t) (serialize details)"

definition pubky_deep_link_details_to_json ::
  "(pubky_deep_link_details \<Rightarrow> string result) \<Rightarrow> pubky_deep_link_details \<Rightarrow> string result" where
  "pubky_deep_link_details_to_json serialize details =
     map_sum (\<lambda>_. ''Error serializing to JSON'') (\<lambda>t. t) (serialize details)"

definition parse_auth_url ::
  "(string \<Rightarrow> deep_link result) \<Rightarrow> (bytes \<Rightarrow> string) \<Rightarrow> (pubky_auth_details \<Rightarrow> string result) \<Rightarrow> string \<Rightarrow> string list" where
  "parse_auth_url parse b64 serialize url =
     (case parse_pubky_auth_url parse b64 url of
        Inl e \<Rightarrow> create_response_vector True e
      | Inr details \<Rightarrow> respond (pubky_auth_details_to_json serialize details))"

definition parse_deep_link ::
  "(string \<Rightarrow> deep_link result) \<Rightarrow> (bytes \<Rightarrow> string) \<Rightarrow> (pubky_deep_link_details \<Rightarrow> string result) \<Rightarrow> string \<Rightarrow>
   string list" where
  "parse_deep_link parse b64 serialize url =
     (case parse_pubky_deep_link parse b64 url of
        Inl e \<Rightarrow> create_response_vector True e
      | Inr details \<Rightarrow> respond (pubky_deep_link_details_to_json serialize details))"

subsection \<open>Public reads\<close>

text \<open>
  \<^verbatim>\<open>str::from_utf8\<close>: the well-formed byte sequences of the Unicode standard, shortest forms only, without
  the surrogates and without code points above \<^verbatim>\<open>10FFFF\<close>.
\<close>

definition continuation :: "u8 \<Rightarrow> bool" where
  "continuation b \<longleftrightarrow> 0x80 \<le> b \<and> b \<le> 0xBF"

fun utf8 :: "bytes \<Rightarrow> bool" where
  "utf8 [] = True"
| "utf8 (a # bs) =
     (if a < 0x80 then utf8 bs
      else case bs of
        [] \<Rightarrow> False
      | b # cs \<Rightarrow>
          if 0xC2 \<le> a \<and> a \<le> 0xDF then continuation b \<and> utf8 cs
          else case cs of
            [] \<Rightarrow> False
          | c # ds \<Rightarrow>
              if 0xE0 \<le> a \<and> a \<le> 0xEF
              then (if a = 0xE0 then 0xA0 \<le> b \<and> b \<le> 0xBF
                    else if a = 0xED then 0x80 \<le> b \<and> b \<le> 0x9F else continuation b) \<and>
                   continuation c \<and> utf8 ds
              else case ds of
                [] \<Rightarrow> False
              | d # es \<Rightarrow>
                  0xF0 \<le> a \<and> a \<le> 0xF4 \<and>
                  (if a = 0xF0 then 0x90 \<le> b \<and> b \<le> 0xBF
                   else if a = 0xF4 then 0x80 \<le> b \<and> b \<le> 0x8F else continuation b) \<and>
                  continuation c \<and> continuation d \<and> utf8 es)"

definition from_utf8 :: "bytes \<Rightarrow> string option" where
  "from_utf8 bs = (if utf8 bs then Some (bytes_text bs) else None)"

text \<open>The request and the capped read both \<^verbatim>\<open>get\<close> and \<^verbatim>\<open>get_bytes\<close> begin with.\<close>

definition fetched :: "('s, 'l, 'w) storage_env \<Rightarrow> string \<Rightarrow> 'w \<Rightarrow> bytes result \<times> 'w" where
  "fetched E url w =
     (case public_get E (trimmed url) w of
        (Inl e, w) \<Rightarrow> (Inl (''Request failed: '' @ full_error_chain e), w)
      | (Inr response, w) \<Rightarrow>
     (case fst (read_capped (body_cap E w) response) of
        Inl e \<Rightarrow> (Inl (''Error reading response: '' @ body_error_display e), w)
      | Inr bytes \<Rightarrow> (Inr bytes, w)))"

definition get :: "('s, 'l, 'w) storage_env \<Rightarrow> (bytes \<Rightarrow> string) \<Rightarrow> string \<Rightarrow> 'w \<Rightarrow> string list \<times> 'w" where
  "get E b64 url w =
     (case fetched E url w of
        (Inl e, w) \<Rightarrow> (create_response_vector True e, w)
      | (Inr bytes, w) \<Rightarrow>
          (case from_utf8 bytes of
             Some s \<Rightarrow> (create_response_vector False s, w)
           | None \<Rightarrow> (create_response_vector False (''base64:'' @ b64 bytes), w)))"

definition get_bytes :: "('s, 'l, 'w) storage_env \<Rightarrow> (bytes \<Rightarrow> string) \<Rightarrow> string \<Rightarrow> 'w \<Rightarrow> string list \<times> 'w" where
  "get_bytes E b64 url w =
     (case fetched E url w of
        (Inl e, w) \<Rightarrow> (create_response_vector True e, w)
      | (Inr bytes, w) \<Rightarrow> (create_response_vector False (b64 bytes), w))"

definition list_calls :: "string option \<Rightarrow> bool option \<Rightarrow> u16 option \<Rightarrow> bool option \<Rightarrow> list_call list" where
  "list_calls cursor reverse limit shallow =
     (case cursor of None \<Rightarrow> [] | Some c \<Rightarrow> [FromCursor c]) @
     (case reverse of None \<Rightarrow> [] | Some r \<Rightarrow> [ReverseBy r]) @
     (case limit of None \<Rightarrow> [] | Some l \<Rightarrow> [LimitTo l]) @
     (case shallow of None \<Rightarrow> [] | Some s \<Rightarrow> [ShallowBy s])"

definition list_export ::
  "('s, 'l, 'w) storage_env \<Rightarrow> (json \<Rightarrow> string result) \<Rightarrow> string \<Rightarrow> string option \<Rightarrow> bool option \<Rightarrow> u16 option \<Rightarrow>
   bool option \<Rightarrow> 'w \<Rightarrow> string list \<times> 'w" where
  "list_export E serialize url cursor reverse limit shallow w =
     (let url = trimmed url @ ''/'' in
      case public_list_open E url of
        Inl e \<Rightarrow> (create_response_vector True (''Failed to create list builder: '' @ display e), w)
      | Inr _ \<Rightarrow>
     (case public_list_send E url (list_calls cursor reverse limit shallow) w of
        (Inl e, w) \<Rightarrow> (create_response_vector True (''Failed to send list request: '' @ full_error_chain e), w)
      | (Inr resources, w) \<Rightarrow>
     (case serialize (JArr (map JStr resources)) of
        Inl e \<Rightarrow> (create_response_vector True (''Failed to serialize JSON: '' @ e), w)
      | Inr t \<Rightarrow> (create_response_vector False t, w))))"

subsection \<open>Sign-up tokens and tag ids\<close>

text \<open>
  The plain \<^verbatim>\<open>reqwest\<close> client of \<^verbatim>\<open>get_signup_token\<close>: building it, one request with the admin password, and
  reading the text.
\<close>

record ('r, 'w) plain_http =
  http_build :: "string result"
  http_get :: "string \<Rightarrow> string \<times> string \<Rightarrow> 'w \<Rightarrow> (reqwest_error + 'r) \<times> 'w"
  http_text :: "'r \<Rightarrow> 'w \<Rightarrow> (reqwest_error + string) \<times> 'w"

definition get_signup_token :: "('r, 'w) plain_http \<Rightarrow> string \<Rightarrow> string \<Rightarrow> 'w \<Rightarrow> string list \<times> 'w" where
  "get_signup_token H homeserver_pubky admin_password w =
     (case http_build H of
        Inl e \<Rightarrow> (create_response_vector True (''Failed to build HTTP client: '' @ e), w)
      | Inr _ \<Rightarrow>
     (case http_get H (''https://'' @ homeserver_pubky @ ''/admin/generate_signup_token'')
             (''X-Admin-Password'', admin_password) w of
        (Inl e, w) \<Rightarrow> (create_response_vector True (''Failed to get signup token: '' @ full_error_chain e), w)
      | (Inr response, w) \<Rightarrow>
     (case http_text H response w of
        (Inr token, w) \<Rightarrow> (create_response_vector False token, w)
      | (Inl e, w) \<Rightarrow> (create_response_vector True (''Failed to read signup token: '' @ full_error_chain e), w))))"

definition create_tag_id ::
  "(bytes \<Rightarrow> bytes) \<Rightarrow> (bytes \<Rightarrow> string) \<Rightarrow> string \<Rightarrow> string \<Rightarrow> string list" where
  "create_tag_id blake3 crockford uri label =
     (let hash = blake3 (text_bytes (uri @ '':'' @ label)); half = take (length hash div 2) hash in
      create_response_vector False (crockford half))"

subsection \<open>The event notifier\<close>

text \<open>
  \<^verbatim>\<open>EventNotifier\<close> is a mutex around an optional listener. The mutex is not reentrant: locking it while the
  same thread holds it never returns, \<^term>\<open>None\<close>. A listener is what its callback does to the notifier.
\<close>

record 'l notifier =
  mutex_held :: bool
  current_listener :: "'l option"

definition notifier_new :: "'l notifier" where
  "notifier_new = \<lparr>mutex_held = False, current_listener = None\<rparr>"

definition lock_notifier :: "'l notifier \<Rightarrow> 'l notifier option" where
  "lock_notifier n = (if mutex_held n then None else Some (n\<lparr>mutex_held := True\<rparr>))"

definition unlock_notifier :: "'l notifier \<Rightarrow> 'l notifier" where
  "unlock_notifier n = n\<lparr>mutex_held := False\<rparr>"

definition set_listener :: "'l \<Rightarrow> 'l notifier \<Rightarrow> 'l notifier option" where
  "set_listener l n = map_option (\<lambda>n. unlock_notifier (n\<lparr>current_listener := Some l\<rparr>)) (lock_notifier n)"

definition remove_listener :: "'l notifier \<Rightarrow> 'l notifier option" where
  "remove_listener n = map_option (\<lambda>n. unlock_notifier (n\<lparr>current_listener := None\<rparr>)) (lock_notifier n)"

definition set_event_listener :: "'l \<Rightarrow> 'l notifier \<Rightarrow> 'l notifier option" where
  "set_event_listener l n = set_listener l n"

definition remove_event_listener :: "'l notifier \<Rightarrow> 'l notifier option" where
  "remove_event_listener n = remove_listener n"

definition notify_event ::
  "('l \<Rightarrow> string \<Rightarrow> 'l notifier \<Rightarrow> 'l notifier option) \<Rightarrow> string \<Rightarrow> 'l notifier \<Rightarrow> 'l notifier option" where
  "notify_event on_event_occurred event_data n =
     (case lock_notifier n of
        None \<Rightarrow> None
      | Some n \<Rightarrow>
          (let l = current_listener n; n = unlock_notifier n in
           case l of None \<Rightarrow> Some n | Some l \<Rightarrow> on_event_occurred l event_data n))"


subsection \<open>Properties\<close>

lemma respond_failure: "respond r = create_response_vector True m \<longleftrightarrow> r = Inl m"
  by (cases r) (auto simp: respond_def create_response_vector_def)

lemma keypair_error_head: "get_keypair_from_secret_key K s = Inl e \<Longrightarrow> hd e = CHR ''F'' \<and> e \<noteq> []"
  by (auto simp: get_keypair_from_secret_key_def split: option.splits if_splits)

lemma client_id_error_head: "parse_client_id f c = Inl e \<Longrightarrow> hd e = CHR ''I'' \<and> e \<noteq> []"
  by (auto simp: parse_client_id_def split: sum.splits)

lemma map_sum_Inl: "map_sum f g r = Inl e \<longleftrightarrow> (\<exists>x. r = Inl x \<and> e = f x)"
  by (cases r) auto

lemma grant_session_text_error_head:
  assumes "grant_session_text S session w = (Inl e, w')"
  shows "hd e \<noteq> CHR ''s'' \<and> e \<noteq> []"
proof -
  have "hd e \<noteq> CHR ''s'' \<and> e \<noteq> []" if "export_grant_session_secret S session w = (Inl e, v)" for v
    using that by (auto simp: export_grant_session_secret_def split: if_splits option.splits prod.splits)
  moreover have "hd e \<noteq> CHR ''s'' \<and> e \<noteq> []"
    if "session_to_json_with_grant_secret S session secret v = (Inl e, v')" for secret v v'
    using that
    by (auto simp: session_to_json_with_grant_secret_def map_sum_Inl split: if_splits prod.splits)
  ultimately show ?thesis
    using assms by (auto simp: grant_session_text_def and_then_Inl)
qed


lemma not_signup_wording:
  "hd e \<noteq> CHR ''s'' \<and> e \<noteq> [] \<Longrightarrow> e \<noteq> ''signup failure: '' @ m \<and> e \<noteq> ''signup succeeded but sign in failed: '' @ m"
  by (cases e) auto

lemma response_inject [simp]:
  "create_response_vector b x = create_response_vector c y \<longleftrightarrow> b = c \<and> x = y"
  by (cases b; cases c) (auto simp: create_response_vector_def)

lemma grant_answer_wording:
  "fst (case grant_session_text S session w of (r, v) \<Rightarrow> (respond r, v)) \<noteq> create_response_vector True (''signup failure: '' @ m)"
  "fst (case grant_session_text S session w of (r, v) \<Rightarrow> (respond r, v)) \<noteq>
     create_response_vector True (''signup succeeded but sign in failed: '' @ m)"
  by (cases "grant_session_text S session w";
      auto simp: respond_failure dest!: grant_session_text_error_head dest: not_signup_wording)+

text \<open>
  After a sign-up the caller knows whether the account exists. The answer opens with \<^verbatim>\<open>signup
  failure: \<close> exactly when the homeserver was asked and refused, and with \<^verbatim>\<open>signup succeeded but sign in
  failed: \<close> exactly when it accepted the account and then refused the sign-in; every other answer, in
  particular to a mistake in the arguments, opens with neither.
\<close>

theorem signup_outcome_readable:
  "((\<exists>m. fst (sign_up_grant K G secret_key homeserver token client_id w) = create_response_vector True (''signup failure: '' @ m)) \<longleftrightarrow>
    (\<exists>keypair hs cid e w1. get_keypair_from_secret_key K secret_key = Inr keypair \<and> parse_key G homeserver = Inr hs \<and>
       parse_client_id (make_client_id G) client_id = Inr cid \<and> signer_signup G keypair hs token w = (Inl e, w1))) \<and>
   ((\<exists>m. fst (sign_up_grant K G secret_key homeserver token client_id w) =
         create_response_vector True (''signup succeeded but sign in failed: '' @ m)) \<longleftrightarrow>
    (\<exists>keypair hs cid e w1 w2. get_keypair_from_secret_key K secret_key = Inr keypair \<and> parse_key G homeserver = Inr hs \<and>
       parse_client_id (make_client_id G) client_id = Inr cid \<and> signer_signup G keypair hs token w = (Inr (), w1) \<and>
       signer_signin G keypair cid w1 = (Inl e, w2)))"
proof (cases "get_keypair_from_secret_key K secret_key")
  case (Inl e)
  then show ?thesis
    using keypair_error_head [OF Inl] by (auto simp: sign_up_grant_def)
next
  case key: (Inr keypair)
  show ?thesis
  proof (cases "parse_key G homeserver")
    case (Inl e)
    then show ?thesis using key by (auto simp: sign_up_grant_def)
  next
    case hs: (Inr hs)
    show ?thesis
    proof (cases "parse_client_id (make_client_id G) client_id")
      case (Inl e)
      then show ?thesis
        using key hs client_id_error_head [OF Inl] by (auto simp: sign_up_grant_def)
    next
      case cid: (Inr cid)
      obtain a w1 where up: "signer_signup G keypair hs token w = (a, w1)" by fastforce
      obtain b w2 where "in": "signer_signin G keypair cid w1 = (b, w2)" by fastforce
      show ?thesis
        using key hs cid up "in"
        by (cases a; cases b) (auto simp: sign_up_grant_def grant_answer_wording [unfolded append_Cons append_Nil])
    qed
  qed
qed

text \<open>
  Writing with a key reports success exactly when the write happened: a \<^verbatim>\<open>put\<close>,
  \<^verbatim>\<open>put_bytes\<close> or \<^verbatim>\<open>delete_file\<close> answers success if and only if the sign-in gave a session, the URL has a path
  below \<^verbatim>\<open>/pub/\<close>, and that session's storage accepted exactly this content, or the deletion, at that path.
\<close>

theorem keyed_write_success_iff_written:
  "((\<exists>t. put_bytes K G url content secret_key client_id w = (create_response_vector False t, w')) \<longleftrightarrow>
    (\<exists>session w1 path. signed_in K G secret_key client_id w = (Inr session, w1) \<and> pub_path url = Some path \<and>
       signed_put G session path content w1 = (Inr (), w'))) \<and>
   ((\<exists>t. put K G url text secret_key client_id w = (create_response_vector False t, w')) \<longleftrightarrow>
    (\<exists>session w1 path. signed_in K G secret_key client_id w = (Inr session, w1) \<and> pub_path url = Some path \<and>
       signed_put G session path (text_bytes text) w1 = (Inr (), w'))) \<and>
   ((\<exists>t. delete_file K G url secret_key client_id w = (create_response_vector False t, w')) \<longleftrightarrow>
    (\<exists>session w1 path. signed_in K G secret_key client_id w = (Inr session, w1) \<and> pub_path url = Some path \<and>
       signed_delete G session path w1 = (Inr (), w')))"
  by (intro conjI; simp add: put_bytes_def put_def delete_file_def Let_def split: prod.splits sum.splits option.splits;
      blast?)


text \<open>
  Slashes at the end of a URL never matter: reading, listing, writing and deleting, with
  a key or with a session, give the same answer and make the same requests with any number of them.
\<close>

theorem trailing_slashes_never_matter:
  "get E b64 (url @ replicate n CHR ''/'') w = get E b64 url w \<and>
   get_bytes E b64 (url @ replicate n CHR ''/'') w = get_bytes E b64 url w \<and>
   list_export E serialize (url @ replicate n CHR ''/'') cursor reverse limit shallow w =
     list_export E serialize url cursor reverse limit shallow w \<and>
   put_bytes K G (url @ replicate n CHR ''/'') content secret_key client_id v =
     put_bytes K G url content secret_key client_id v \<and>
   delete_file K G (url @ replicate n CHR ''/'') secret_key client_id v = delete_file K G url secret_key client_id v \<and>
   put_bytes_with_session C (url @ replicate n CHR ''/'') content secret st u =
     put_bytes_with_session C url content secret st u \<and>
   delete_with_session C (url @ replicate n CHR ''/'') secret st u = delete_with_session C url secret st u"
  unfolding get_def get_bytes_def fetched_def list_export_def put_bytes_def delete_file_def
    put_bytes_with_session_def delete_with_session_def trimmed_slashes pub_path_slashes
  by simp

text \<open>
  How a host reads the text \<^verbatim>\<open>get\<close> answers, knowing nothing of the body: what follows \<^verbatim>\<open>base64:\<close> is decoded, any
  other text is its bytes.
\<close>

definition host_reads :: "(string \<Rightarrow> bytes result) \<Rightarrow> string \<Rightarrow> bytes result" where
  "host_reads decode t = (if prefix ''base64:'' t then decode (drop 7 t) else Inr (text_bytes t))"

lemma bytes_text_bytes [simp]: "bytes_text (text_bytes t) = t"
proof -
  have "unat (of_nat (of_char c) :: u8) = of_char c" for c
    by (simp add: unat_of_nat)
  then show ?thesis by (simp add: text_bytes_def bytes_text_def comp_def)
qed

lemma bytes_text_eq: "bytes_text b = t \<longleftrightarrow> b = text_bytes t"
  by auto

lemma fetched_get:
  assumes "fetched E url w = (Inr body, v)"
  shows "get E b64 url w =
    (create_response_vector False (if utf8 body then bytes_text body else ''base64:'' @ b64 body), v)"
  using assms by (simp add: get_def from_utf8_def)

text \<open>
  C34 (roundtrip). What the string-based reads lose. The text \<^verbatim>\<open>get_bytes\<close> answers always decodes to exactly the body.
  The one of \<^verbatim>\<open>get\<close>, read as above, gives back the body, unless the body is itself a text that begins with \<^verbatim>\<open>base64:\<close>.
  That exception is real: two different bodies get the same answer exactly when one is not UTF-8 and
  the other is the text \<^verbatim>\<open>base64:\<close> with the encoding of the first. When no body arrives, both exports
  answer the error.
\<close>

theorem read_exports_ambiguous_only_by_prefix:
  assumes "\<And>b. decode (b64 b) = Inr b"
  shows "(\<forall>body v. fetched E url w = (Inr body, v) \<longrightarrow>
      (\<exists>t. get_bytes E b64 url w = (create_response_vector False t, v) \<and> decode t = Inr body) \<and>
      (\<exists>t. get E b64 url w = (create_response_vector False t, v) \<and>
         (host_reads decode t = Inr body \<or> utf8 body \<and> prefix ''base64:'' (bytes_text body))) \<and>
      (\<forall>E' url' w' body' v'. fetched E' url' w' = (Inr body', v') \<and> body' \<noteq> body \<longrightarrow>
         (fst (get E b64 url w) = fst (get E' b64 url' w') \<longleftrightarrow>
          \<not> utf8 body \<and> utf8 body' \<and> body' = text_bytes (''base64:'' @ b64 body) \<or>
          \<not> utf8 body' \<and> utf8 body \<and> body = text_bytes (''base64:'' @ b64 body')))) \<and>
    (\<forall>e v. fetched E url w = (Inl e, v) \<longrightarrow>
       get_bytes E b64 url w = (create_response_vector True e, v) \<and> get E b64 url w = (create_response_vector True e, v))"
proof (intro conjI allI impI)
  fix body v assume b: "fetched E url w = (Inr body, v)"
  show "\<exists>t. get_bytes E b64 url w = (create_response_vector False t, v) \<and> decode t = Inr body"
    using assms by (simp add: get_bytes_def b)
  show "\<exists>t. get E b64 url w = (create_response_vector False t, v) \<and>
      (host_reads decode t = Inr body \<or> utf8 body \<and> prefix ''base64:'' (bytes_text body))"
    using assms by (simp add: fetched_get [OF b] host_reads_def)
  fix E' url' w' body' v' assume b': "fetched E' url' w' = (Inr body', v') \<and> body' \<noteq> body"
  have inj: "b64 x = b64 y \<longleftrightarrow> x = y" for x y using assms by (metis sum.inject(2))
  have eq: "bytes_text x = bytes_text y \<longleftrightarrow> x = y" for x y by (simp add: bytes_text_eq)
  show "fst (get E b64 url w) = fst (get E' b64 url' w') \<longleftrightarrow>
      \<not> utf8 body \<and> utf8 body' \<and> body' = text_bytes (''base64:'' @ b64 body) \<or>
      \<not> utf8 body' \<and> utf8 body \<and> body = text_bytes (''base64:'' @ b64 body')"
    using b' by (cases "utf8 body"; cases "utf8 body'")
      (auto simp: fetched_get [OF b] fetched_get [of E' url' w' body' v'] inj eq simp flip: bytes_text_eq)
qed (simp_all add: get_bytes_def get_def)

text \<open>An encoding with two letters for a byte stands for base64.\<close>

definition letters :: "bytes \<Rightarrow> string" where
  "letters b = concat (map (\<lambda>x. [char_of (97 + unat x div 16), char_of (97 + unat x mod 16)]) b)"

fun of_letters :: "string \<Rightarrow> bytes" where
  "of_letters (c # d # s) = of_nat ((of_char c - 97) * 16 + (of_char d - 97)) # of_letters s"
| "of_letters _ = []"

lemma of_letters: "of_letters (letters b) = b"
proof (induction b)
  case (Cons x b)
  have "unat x < 256" using unsigned_less [of x, where ?'a = nat] by simp
  then have "(97 + unat x div 16) mod 256 = 97 + unat x div 16" "(97 + unat x mod 16) mod 256 = 97 + unat x mod 16"
    by auto
  with Cons show ?case by (simp add: letters_def)
qed (simp add: letters_def)

text \<open>A lone continuation byte is not text.\<close>

definition example_body :: "bytes \<Rightarrow> (unit, nat, (unit, nat, nat) lock_world) storage_env" where
  "example_body b = example_storage\<lparr>public_get := \<lambda>_ w. (Inr \<lparr>content_length = None, chunks = [Inr b]\<rparr>, w)\<rparr>"

lemma example_fetched: "length b \<le> 10 \<Longrightarrow> fetched (example_body b) url w = (Inr b, w)"
  by (simp add: fetched_def example_body_def example_storage_def read_capped_def read_up_to_def saturating_add_u64_def)

theorem read_exports_ambiguous_only_by_prefix_witness:
  "\<not> utf8 [0x80] \<and>
   fst (get (example_body [0x80]) letters ''u'' (example_lock None)) =
   fst (get (example_body (text_bytes ''base64:ia'')) letters ''u'' (example_lock None))"
proof -
  let ?b = "[0x80] :: bytes" and ?t = "text_bytes ''base64:ia''"
  have law: "(Inr \<circ> of_letters) (letters b) = (Inr b :: bytes result)" for b by (simp add: of_letters)
  have b: "fetched (example_body ?b) ''u'' (example_lock None) = (Inr ?b, example_lock None)"
    and t: "fetched (example_body ?t) ''u'' (example_lock None) = (Inr ?t, example_lock None) \<and> ?t \<noteq> ?b"
    by (simp_all add: example_fetched text_bytes_def)
  note same = read_exports_ambiguous_only_by_prefix [OF law, THEN conjunct1, THEN spec, THEN spec, THEN mp, OF b,
      THEN conjunct2, THEN conjunct2, THEN spec, THEN spec, THEN spec, THEN spec, THEN spec, THEN mp, OF t]
  have l: "letters ?b = ''ia''" by code_simp
  have "\<not> utf8 ?b" "utf8 ?t" by (simp_all add: text_bytes_def)
  with same l show ?thesis by simp
qed


text \<open>What a callback may do to the notifier it was called by, and who listens afterwards.\<close>

datatype 'l listener_action = Replace 'l | Remove

fun act :: "'l listener_action list \<Rightarrow> 'l notifier \<Rightarrow> 'l notifier option" where
  "act [] n = Some n"
| "act (Replace l # as) n = Option.bind (set_listener l n) (act as)"
| "act (Remove # as) n = Option.bind (remove_listener n) (act as)"

fun listening_after :: "'l listener_action list \<Rightarrow> 'l option \<Rightarrow> 'l option" where
  "listening_after [] l = l"
| "listening_after (Replace l' # as) l = listening_after as (Some l')"
| "listening_after (Remove # as) l = listening_after as None"

lemma act_unlocked:
  "\<not> mutex_held n \<Longrightarrow>
   act as n = Some \<lparr>mutex_held = False, current_listener = listening_after as (current_listener n)\<rparr>"
proof (induction as n rule: act.induct)
  case (1 n)
  then show ?case by (cases n) simp
qed (simp_all add: set_listener_def remove_listener_def lock_notifier_def unlock_notifier_def)

text \<open>
  A listener that changes the listener from inside its callback does not deadlock: whatever
  sequence of \<^verbatim>\<open>set_listener\<close> and \<^verbatim>\<open>remove_listener\<close> calls the callback makes, the notification returns, the
  mutex is free again, and the listener left is the one the callback asked for last.
\<close>

theorem notify_event_survives_reentry:
  assumes "\<not> mutex_held n"
  shows "notify_event (\<lambda>l data. act (script l data)) event_data n =
     Some \<lparr>mutex_held = False,
           current_listener = (case current_listener n of
              None \<Rightarrow> None | Some l \<Rightarrow> listening_after (script l event_data) (Some l))\<rparr>"
  using assms
  by (cases n) (auto simp: act_unlocked notify_event_def lock_notifier_def unlock_notifier_def split: option.splits)

theorem notify_event_survives_reentry_witness:
  "Option.bind (set_listener (1 :: nat) notifier_new)
     (notify_event (\<lambda>l data. act [Remove, Replace (l + 1)]) ''event'') =
   Some \<lparr>mutex_held = False, current_listener = Some 2\<rparr>"
  using notify_event_survives_reentry [of "\<lparr>mutex_held = False, current_listener = Some (1 :: nat)\<rparr>"
      "\<lambda>l data. [Remove, Replace (l + 1)]" "''event''"]
  by (simp add: set_listener_def lock_notifier_def unlock_notifier_def notifier_new_def)

end
