(* ===== verification/Ffi_Flows.thy ===== *)
theory Ffi_Flows
  imports Flow_Handles Cookie_Exchange Auth_Flow Ffi_Calls
begin

section \<open>The exports of the flow handles and of the cookie flow\<close>

text \<open>
  Models the functions of \<^verbatim>\<open>src/lib.rs\<close> around theory \<open>Flow_Handles\<close> (the calls that address a flow by id)
  and around theory \<open>Cookie_Exchange\<close> (the cookie sign-in, whose flow waits in a slot of its own).
  \<^verbatim>\<open>serde_json\<close>'s text of a value and its parser are parameters.
\<close>

subsection \<open>Flows by id\<close>

definition configure_grant_auth_flows ::
  "u32 \<Rightarrow> u32 \<Rightarrow> ('f, 'n, 'v) handles_world \<Rightarrow> string list \<times> ('f, 'n, 'v) handles_world" where
  "configure_grant_auth_flows max_concurrent ttl_secs w =
     (case handles_configure (unat max_concurrent) (from_secs (unat ttl_secs)) w of
        ((n, d), w) \<Rightarrow>
          (create_response_vector False
             (''Keeping at most '' @ show_nat n @ '' pending auth flows for '' @
              show_nat (as_secs d) @ ''s each''), w))"

definition start_grant_auth_flow_handle ::
  "('f, 's, 'n, 'v) handles \<Rightarrow> (json \<Rightarrow> string) \<Rightarrow> string \<Rightarrow> string \<Rightarrow> string option \<Rightarrow> ('f, 'n, 'v) handles_world \<Rightarrow>
   string list \<times> ('f, 'n, 'v) handles_world" where
  "start_grant_auth_flow_handle E value_text capabilities client_id relay_url w =
     (case handle_start E capabilities client_id relay_url w of
        (Inr (flow_id, url), w) \<Rightarrow>
          (create_response_vector False
             (value_text (JObj [(''flow_id'', JStr flow_id), (''authorization_url'', JStr url)])), w)
      | (Inl message, w) \<Rightarrow> (create_response_vector True message, w))"

definition flow_outcome_json ::
  "(json \<Rightarrow> string) \<Rightarrow> (string \<Rightarrow> json result) \<Rightarrow> ('s, 'w) session_api \<Rightarrow> 's outcome \<Rightarrow> 'w \<Rightarrow> string result \<times> 'w" where
  "flow_outcome_json value_text from_str S out w =
     (case out of
        Pending \<Rightarrow> (Inr (value_text (JObj [(''status'', JStr ''pending'')])), w)
      | Expired \<Rightarrow> (Inr (value_text (JObj [(''status'', JStr ''expired'')])), w)
      | Approved session \<Rightarrow>
          and_then (grant_session_text S session w) (\<lambda>t w.
            (case from_str t of
               Inl e \<Rightarrow> Inl (''Failed to serialize session: '' @ e)
             | Inr j \<Rightarrow> Inr (value_text (JObj [(''status'', JStr ''approved''), (''session'', j)])), w)))"

definition outcome_answer ::
  "(json \<Rightarrow> string) \<Rightarrow> (string \<Rightarrow> json result) \<Rightarrow> ('s, 'w) session_api \<Rightarrow> 's outcome result \<times> 'w \<Rightarrow> string list \<times> 'w" where
  "outcome_answer value_text from_str S r =
     (case r of
        (Inl message, w) \<Rightarrow> (create_response_vector True message, w)
      | (Inr out, w) \<Rightarrow> (case flow_outcome_json value_text from_str S out w of (t, w) \<Rightarrow> (respond t, w)))"

definition poll_grant_auth_flow_handle ::
  "('f, 's, 'n, 'v) handles \<Rightarrow> (json \<Rightarrow> string) \<Rightarrow> (string \<Rightarrow> json result) \<Rightarrow>
   ('s, ('f, 'n, 'v) handles_world) session_api \<Rightarrow> string \<Rightarrow> ('f, 'n, 'v) handles_world \<Rightarrow>
   string list \<times> ('f, 'n, 'v) handles_world" where
  "poll_grant_auth_flow_handle E value_text from_str S flow_id w =
     outcome_answer value_text from_str S (poll E flow_id w)"

definition await_grant_auth_flow_handle ::
  "('f, 's, 'n, 'v) handles \<Rightarrow> (json \<Rightarrow> string) \<Rightarrow> (string \<Rightarrow> json result) \<Rightarrow>
   ('s, ('f, 'n, 'v) handles_world) session_api \<Rightarrow> string \<Rightarrow> u32 \<Rightarrow> ('f, 'n, 'v) handles_world \<Rightarrow>
   (string list \<times> ('f, 'n, 'v) handles_world) option" where
  "await_grant_auth_flow_handle E value_text from_str S flow_id timeout_secs w =
     map_option (outcome_answer value_text from_str S)
       (await_approval E flow_id (from_secs (unat timeout_secs)) w)"

definition cancel_grant_auth_flow_handle ::
  "('f, 's, 'n, 'v) handles \<Rightarrow> string \<Rightarrow> ('f, 'n, 'v) handles_world \<Rightarrow> string list \<times> ('f, 'n, 'v) handles_world" where
  "cancel_grant_auth_flow_handle E flow_id w =
     (case cancel E flow_id w of
        (True, w) \<Rightarrow> (create_response_vector False ''Auth flow cancelled'', w)
      | (False, w) \<Rightarrow> (create_response_vector True (''No auth flow with id '' @ flow_id), w))"

subsection \<open>The cookie flow\<close>

text \<open>\<^verbatim>\<open>COOKIE_AUTH_FLOW\<close> beside the rest of the world, and the calls on a \<^verbatim>\<open>PubkyCookieAuthFlow\<close>.\<close>

record ('f, 'v) cookie_world =
  COOKIE_AUTH_FLOW :: "'f option"
  cookie_rest :: 'v

record ('f, 'c, 't, 's, 'w) cookie_api =
  cookie_caps :: "string \<Rightarrow> string result"
  cookie_start :: "string \<Rightarrow> 'w \<Rightarrow> (sdk_error + 'f) \<times> 'w"
  cookie_url :: "'f \<Rightarrow> string"
  target_homeserver :: "'f \<Rightarrow> string option"
  await_token :: "'f \<Rightarrow> 'w \<Rightarrow> (sdk_error + 't) \<times> 'w"
  cookie_exchange :: "('c, 't, 'w) exchange_env"
  from_cookie_credential :: "'c \<Rightarrow> 's"
  cookie_texts :: "('s, 'w) session_api"

definition start_cookie_auth_flow ::
  "('f, 'c, 't, 's, ('f, 'v) cookie_world) cookie_api \<Rightarrow> string \<Rightarrow> ('f, 'v) cookie_world \<Rightarrow>
   string list \<times> ('f, 'v) cookie_world" where
  "start_cookie_auth_flow X capabilities w =
     (case cookie_caps X capabilities of
        Inl e \<Rightarrow> (create_response_vector True (''Invalid capabilities: '' @ e), w)
      | Inr caps \<Rightarrow>
     (case cookie_start X caps w of
        (Inl e, w) \<Rightarrow> (create_response_vector True (''Failed to start auth flow: '' @ full_error_chain e), w)
      | (Inr flow, w) \<Rightarrow>
          (create_response_vector False (cookie_url X flow), w\<lparr>COOKIE_AUTH_FLOW := Some flow\<rparr>)))"

definition await_cookie_auth_approval ::
  "('f, 'c, 't, 's, ('f, 'v) cookie_world) cookie_api \<Rightarrow> ('f, 'v) cookie_world \<Rightarrow>
   string list \<times> ('f, 'v) cookie_world" where
  "await_cookie_auth_approval X w =
     (case COOKIE_AUTH_FLOW w of
        None \<Rightarrow> (create_response_vector True ''No auth flow in progress'', w)
      | Some flow \<Rightarrow>
     (case await_token X flow (w\<lparr>COOKIE_AUTH_FLOW := None\<rparr>) of
        (Inl e, w) \<Rightarrow> (create_response_vector True (''Auth approval failed: '' @ full_error_chain e), w)
      | (Inr token, w) \<Rightarrow>
     (case exchange (cookie_exchange X) token (target_homeserver X flow) w of
        (Inr credential, w) \<Rightarrow> (cookie_answer (cookie_texts X) (from_cookie_credential X credential), w)
      | (Inl e, w) \<Rightarrow> (create_response_vector True (''Auth approval failed: '' @ e), w))))"


subsection \<open>What the exports hand over\<close>

lemma and_then_fst: "fst r = Inr a \<Longrightarrow> and_then r k = k a (snd r)"
  by (cases r) auto

text \<open>
  An approved poll ends the flow and answers the session object with the secret that restores it,
  provided \<^verbatim>\<open>serde_json\<close> reads back what it wrote.
\<close>

lemma approved_handle_hands_over_session:
  assumes "poll E fid w = (Inr (Approved session), w1)" and "as_grant S session"
    and "export_local_secret S session w1 = (Some secret, w2)"
    and "\<And>j. \<exists>t. to_text S j = Inr t \<and> from_str t = Inr j"
  shows "\<exists>j w'. poll_grant_auth_flow_handle E value_text from_str S fid w =
      (create_response_vector False (value_text (JObj [(''status'', JStr ''approved''), (''session'', j)])), w') \<and>
    field j ''grant_secret'' = Some (JStr secret)"
proof -
  obtain i w3 where i: "grant_session_info S session w2 = (i, w3)" by fastforce
  define j where "j = JObj [
    (''homeserver'', JStr (gi_homeserver i)), (''pubky'', JStr (gi_pubky i)), (''client_id'', JStr (gi_client_id i)),
    (''capabilities'', JArr (map JStr (gi_capabilities i))), (''grant_id'', JStr (gi_grant_id i)),
    (''token_expires_at'', jnat (gi_token_expires_at i)), (''grant_expires_at'', jnat (gi_grant_expires_at i)),
    (''created_at'', jnat (gi_created_at i)), (''grant_secret'', JStr secret)]"
  obtain t where t: "to_text S j = Inr t" "from_str t = Inr j" using assms(4) by blast
  have "grant_session_text S session w1 = (Inr t, w3)"
    using assms(2,3) i t(1)
    by (simp add: grant_session_text_def export_grant_session_secret_def session_to_json_with_grant_secret_def j_def)
  then show ?thesis
    using assms(1) t(2)
    by (intro exI [of _ j] exI [of _ w3])
      (simp add: poll_grant_auth_flow_handle_def outcome_answer_def flow_outcome_json_def respond_def,
       simp add: j_def hm_get_def)
qed

text \<open>The cookie flow is taken out before its token is awaited: a second await meanwhile finds none.\<close>

lemma cookie_flow_taken_first:
  "await_cookie_auth_approval X (w\<lparr>COOKIE_AUTH_FLOW := None\<rparr>) =
     (create_response_vector True ''No auth flow in progress'', w\<lparr>COOKIE_AUTH_FLOW := None\<rparr>)"
  by (simp add: await_cookie_auth_approval_def)

text \<open>The limits that are answered are the limits in force: never less than one flow.\<close>

lemma configure_grant_auth_flows_answers_limits:
  "configure_grant_auth_flows n secs w =
     (create_response_vector False (''Keeping at most '' @ show_nat (max_flows (world_limits w')) @
        '' pending auth flows for '' @ show_nat (as_secs (ttl (world_limits w'))) @ ''s each''), w') \<Longrightarrow>
   max_flows (world_limits w') = max (unat n) 1"
  by (auto simp: configure_grant_auth_flows_def handles_configure_def Let_def)

end
