(* ===== verification/Ffi_Records.thy ===== *)
theory Ffi_Records
  imports Keys
begin

section \<open>The exports that publish and resolve records\<close>

text \<open>
  Models \<^verbatim>\<open>publish\<close>, \<^verbatim>\<open>publish_https\<close>, \<^verbatim>\<open>resolve\<close> and \<^verbatim>\<open>resolve_https\<close> of \<^verbatim>\<open>src/lib.rs\<close>. The \<^verbatim>\<open>pkarr\<close> crate is the
  parameter \<open>pkarr_api\<close>: a name, a TXT value and a key are parsed or refused, a packet is signed, sent and
  looked up, and answers its records, its bytes and its two times (as the JSON they serialize to). A slice
  out of range and a failing \<^verbatim>\<open>expect\<close> panic: \<^term>\<open>None\<close>.
\<close>

record classed_record = resource_record +
  rr_class :: string

record ('k, 'p, 'w) pkarr_api =
  name_new :: "string \<Rightarrow> string result"
  name_try_from :: "string \<Rightarrow> string result"
  txt_try_from :: "string \<Rightarrow> (string \<times> string option) list result"
  signed_packet_new :: "'k \<Rightarrow> classed_record list \<Rightarrow> 'w \<Rightarrow> 'p result \<times> 'w"
  packet_publish :: "'p \<Rightarrow> 'w \<Rightarrow> (std_error + unit) \<times> 'w"
  packet_resolve :: "string \<Rightarrow> 'w \<Rightarrow> (std_error + 'p) \<times> 'w"
  record_key_try_from :: "string \<Rightarrow> string result"
  packet_records :: "'p \<Rightarrow> classed_record list"
  packet_bytes :: "'p \<Rightarrow> bytes"
  packet_timestamp :: "'p \<Rightarrow> json"
  packet_last_seen :: "'p \<Rightarrow> json"

subsection \<open>Publishing\<close>

text \<open>Signing a reply with these answers and sending it; both exports end like this.\<close>

definition sign_and_publish ::
  "('k, 'm, 'w) key_api \<Rightarrow> ('k, 'p, 'w) pkarr_api \<Rightarrow> 'k \<Rightarrow> classed_record list \<Rightarrow> 'w \<Rightarrow> string list \<times> 'w" where
  "sign_and_publish K P keypair answers w =
     (case signed_packet_new P keypair answers w of
        (Inl e, w) \<Rightarrow> (create_response_vector True (''Failed to create signed packet: '' @ e), w)
      | (Inr packet, w) \<Rightarrow>
     (case packet_publish P packet w of
        (Inr _, w) \<Rightarrow> (create_response_vector False (z32_of K keypair), w)
      | (Inl e, w) \<Rightarrow> (create_response_vector True (''Failed to publish: '' @ full_error_chain e), w)))"

definition publish ::
  "('k, 'm, 'w) key_api \<Rightarrow> ('k, 'p, 'w) pkarr_api \<Rightarrow> string \<Rightarrow> string \<Rightarrow> string \<Rightarrow> 'w \<Rightarrow> string list \<times> 'w" where
  "publish K P record_name record_content secret_key w =
     (case get_keypair_from_secret_key K secret_key of
        Inl e \<Rightarrow> (create_response_vector True e, w)
      | Inr keypair \<Rightarrow>
     (case name_new P record_name of
        Inl e \<Rightarrow> (create_response_vector True (''Failed to create DNS name: '' @ e), w)
      | Inr dns_name \<Rightarrow>
     (case txt_try_from P record_content of
        Inl e \<Rightarrow> (create_response_vector True (''Failed to convert string to TXT record: '' @ e), w)
      | Inr txt \<Rightarrow>
          sign_and_publish K P keypair
            [\<lparr>rr_name = dns_name, rr_ttl = 30, rr_data = TXT txt, rr_class = ''IN''\<rparr>] w)))"

definition publish_https ::
  "('k, 'm, 'w) key_api \<Rightarrow> ('k, 'p, 'w) pkarr_api \<Rightarrow> string \<Rightarrow> string \<Rightarrow> string \<Rightarrow> 'w \<Rightarrow> string list \<times> 'w" where
  "publish_https K P record_name target secret_key w =
     (case get_keypair_from_secret_key K secret_key of
        Inl e \<Rightarrow> (create_response_vector True e, w)
      | Inr keypair \<Rightarrow>
     (case name_try_from P target of
        Inl e \<Rightarrow> (create_response_vector True (''Invalid target: '' @ e), w)
      | Inr target \<Rightarrow>
     (case name_new P record_name of
        Inl e \<Rightarrow> (create_response_vector True (''Invalid DNS name: '' @ e), w)
      | Inr dns_name \<Rightarrow>
          sign_and_publish K P keypair
            [\<lparr>rr_name = dns_name, rr_ttl = 3600,
              rr_data = HTTPS \<lparr>svc_priority = 0, svc_target = target, svc_params = []\<rparr>, rr_class = ''IN''\<rparr>] w)))"

subsection \<open>Resolving\<close>

text \<open>The slice \<^verbatim>\<open>bytes[i..j]\<close>.\<close>

definition slice :: "'a list \<Rightarrow> nat \<Rightarrow> nat \<Rightarrow> 'a list option" where
  "slice xs i j = (if i \<le> j \<and> j \<le> length xs then Some (take (j - i) (drop i xs)) else None)"

definition packet_json ::
  "('k, 'm, 'w) key_api \<Rightarrow> ('k, 'p, 'w) pkarr_api \<Rightarrow> 'p \<Rightarrow> json option" where
  "packet_json K P packet =
     (let bytes = packet_bytes P packet in
      Option.bind (slice bytes 0 32) (\<lambda>public_key.
      Option.bind (slice bytes 32 96) (\<lambda>signature.
      Option.bind (slice bytes 104 (length bytes)) (\<lambda>dns_packet.
      Some (JObj [
        (''signed_packet'', JStr (hex_encode K bytes)),
        (''public_key'', JStr (base64_encode K public_key)),
        (''signature'', JStr (base64_encode K signature)),
        (''timestamp'', packet_timestamp P packet),
        (''last_seen'', packet_last_seen P packet),
        (''dns_packet'', JStr (base64_encode K dns_packet)),
        (''records'', JArr (map (resource_record_to_json (base64_encode K)) (packet_records P packet)))])))))"

definition resolve ::
  "('k, 'm, 'w) key_api \<Rightarrow> ('k, 'p, 'w) pkarr_api \<Rightarrow> string \<Rightarrow> 'w \<Rightarrow> (string list \<times> 'w) option" where
  "resolve K P public_key w =
     (case record_key_try_from P public_key of
        Inl e \<Rightarrow> Some (create_response_vector True (''Invalid zbase32 encoded key: '' @ e), w)
      | Inr key \<Rightarrow>
     (case packet_resolve P key w of
        (Inl e, w) \<Rightarrow> Some (create_response_vector True (''No signed packet found: '' @ full_error_chain e), w)
      | (Inr packet, w) \<Rightarrow>
          Option.bind (packet_json K P packet) (\<lambda>j.
            case json_text K j of Inl _ \<Rightarrow> None | Inr t \<Rightarrow> Some (create_response_vector False t, w))))"

text \<open>One HTTPS record as JSON; \<^verbatim>\<open>get_param(3)\<close> is the port and \<^verbatim>\<open>get_param(1)\<close> the protocols.\<close>

fun https_json :: "classed_record \<Rightarrow> json option" where
  "https_json rr =
     (case rr_data rr of
        HTTPS s \<Rightarrow>
          Some (JObj (
            [(''name'', JStr (rr_name rr)), (''class'', JStr (rr_class rr)), (''ttl'', jnat (rr_ttl rr)),
             (''priority'', jnat (svc_priority s)), (''target'', JStr (svc_target s))] @
            (case map_of (svc_params s) 3 of Some (Port port) \<Rightarrow> [(''port'', jnat port)] | _ \<Rightarrow> []) @
            (case map_of (svc_params s) 1 of Some (Alpn alpns) \<Rightarrow> [(''alpn'', JArr (map JStr alpns))] | _ \<Rightarrow> [])))
      | _ \<Rightarrow> None)"

definition resolve_https ::
  "('k, 'm, 'w) key_api \<Rightarrow> ('k, 'p, 'w) pkarr_api \<Rightarrow> string \<Rightarrow> 'w \<Rightarrow> string list \<times> 'w" where
  "resolve_https K P public_key w =
     (case record_key_try_from P public_key of
        Inl e \<Rightarrow> (create_response_vector True (''Invalid public key: '' @ e), w)
      | Inr key \<Rightarrow>
     (case packet_resolve P key w of
        (Inl e, w) \<Rightarrow> (create_response_vector True (''No signed packet found: '' @ full_error_chain e), w)
      | (Inr packet, w) \<Rightarrow>
          (let https_records = List.map_filter https_json (packet_records P packet) in
           if https_records = [] then (create_response_vector True ''No HTTPS records found'', w)
           else (json_or_error K (JObj [(''public_key'', JStr key), (''https_records'', JArr https_records),
                   (''last_seen'', packet_last_seen P packet), (''timestamp'', packet_timestamp P packet)]), w))))"

subsection \<open>Properties\<close>

text \<open>
  C35 (bounds). Resolving never panics on a packet of the documented layout and loses nothing of it. A
  signed packet is a 32-byte key, a 64-byte signature, an 8-byte timestamp and the DNS packet; when it has
  these first 104 bytes, the slices are in range, the answer has the hex of the whole packet and the base64
  of exactly its key, signature and DNS part, and one JSON object per record, in order.
\<close>

theorem resolve_takes_packet_apart:
  assumes key: "record_key_try_from P public_key = Inr key"
    and found: "packet_resolve P key w = (Inr packet, w')"
    and layout: "104 \<le> length (packet_bytes P packet)"
    and writes: "\<And>j. \<exists>t. json_text K j = Inr t"
  shows "\<exists>pk signature timestamp dns j t.
     packet_bytes P packet = pk @ signature @ timestamp @ dns \<and>
     length pk = 32 \<and> length signature = 64 \<and> length timestamp = 8 \<and>
     field j ''signed_packet'' = Some (JStr (hex_encode K (packet_bytes P packet))) \<and>
     field j ''public_key'' = Some (JStr (base64_encode K pk)) \<and>
     field j ''signature'' = Some (JStr (base64_encode K signature)) \<and>
     field j ''dns_packet'' = Some (JStr (base64_encode K dns)) \<and>
     field j ''records'' = Some (JArr (map (resource_record_to_json (base64_encode K)) (packet_records P packet))) \<and>
     json_text K j = Inr t \<and> resolve K P public_key w = Some (create_response_vector False t, w')"
proof -
  let ?b = "packet_bytes P packet"
  obtain j where j: "packet_json K P packet = Some j"
    and f: "field j ''signed_packet'' = Some (JStr (hex_encode K ?b))"
      "field j ''public_key'' = Some (JStr (base64_encode K (take 32 ?b)))"
      "field j ''signature'' = Some (JStr (base64_encode K (take 64 (drop 32 ?b))))"
      "field j ''dns_packet'' = Some (JStr (base64_encode K (drop 104 ?b)))"
      "field j ''records'' = Some (JArr (map (resource_record_to_json (base64_encode K)) (packet_records P packet)))"
    using layout by (simp add: packet_json_def slice_def Let_def hm_get_def)
  obtain t where t: "json_text K j = Inr t" using writes by blast
  have r: "resolve K P public_key w = Some (create_response_vector False t, w')"
    using key found j t by (simp add: resolve_def)
  have "?b = take 32 ?b @ take 64 (drop 32 ?b) @ take 8 (drop 96 ?b) @ drop 104 ?b"
  proof -
    have "drop 104 ?b = drop 8 (drop 96 ?b)" "drop 96 ?b = drop 64 (drop 32 ?b)" by simp_all
    then show ?thesis by (metis append_take_drop_id)
  qed
  moreover have "length (take 32 ?b) = 32" "length (take 64 (drop 32 ?b)) = 64" "length (take 8 (drop 96 ?b)) = 8"
    using layout by simp_all
  ultimately show ?thesis using f t r by (intro exI conjI)
qed

text \<open>A packet of 106 bytes: its sixth record field is empty and its texts are constant.\<close>

definition example_pkarr :: "(u8, bytes, unit) pkarr_api" where
  "example_pkarr =
     \<lparr>name_new = Inr, name_try_from = Inr, txt_try_from = \<lambda>t. Inr [(t, None)],
      signed_packet_new = \<lambda>k _ w. (Inr (replicate 106 k), w), packet_publish = \<lambda>_ w. (Inr (), w),
      packet_resolve = \<lambda>_ w. (Inr (replicate 106 7), w), record_key_try_from = Inr,
      packet_records = \<lambda>_. [], packet_bytes = \<lambda>p. p, packet_timestamp = \<lambda>_. JNum 1, packet_last_seen = \<lambda>_. JNum 2\<rparr>"

theorem resolve_takes_packet_apart_witness:
  "\<exists>t. resolve example_keys example_pkarr ''pk'' () = Some (create_response_vector False t, ())"
  using resolve_takes_packet_apart [of example_pkarr "''pk''" "''pk''" "()" "replicate 106 7" "()" example_keys]
  by (auto simp: example_pkarr_def example_keys_def)

end
