(* ===== verification/Network_Client.thy ===== *)
theory Network_Client
  imports Session_Store "HOL-Library.List_Lexorder" "HOL-Library.Char_ord"
begin

section \<open>The network client and its trust anchors\<close>

text \<open>
  Models \<^verbatim>\<open>src/env_roots.rs\<close> and, from \<^verbatim>\<open>src/lib.rs\<close>, \<^verbatim>\<open>build_pubky_with\<close>, \<^verbatim>\<open>proxy_configured\<close> and
  \<^verbatim>\<open>NetworkClient\<close>. The SDK's client builder is driven by the list of calls made on it. Parameters: the
  environment and the file system, PEM and base64 coding, what \<^verbatim>\<open>rustls\<close> accepts as a trust anchor, and
  the construction of the relay client and of the SDK client, and \<^verbatim>\<open>webpki_roots\<close>. Logging and the choice of
  the crypto provider have no effect on results and are left out. Strings are the UTF-8 bytes of the source's strings.
\<close>

subsection \<open>Blank strings\<close>

text \<open>\<^verbatim>\<open>s.trim().is_empty()\<close>: every code point is white space, in its UTF-8 encoding.\<close>

fun blank :: "string \<Rightarrow> bool" where
  "blank [] = True"
| "blank (a # s) =
     (let n = of_char a :: nat in
      if n = 32 \<or> 9 \<le> n \<and> n \<le> 13 then blank s
      else case s of
        b # s2 \<Rightarrow>
          (let m = of_char b :: nat in
           if n = 0xC2 \<and> (m = 0x85 \<or> m = 0xA0) then blank s2
           else case s2 of
             c # s3 \<Rightarrow>
               (let l = of_char c :: nat in
                if n = 0xE1 \<and> m = 0x9A \<and> l = 0x80 \<or>
                   n = 0xE2 \<and> m = 0x80 \<and> (0x80 \<le> l \<and> l \<le> 0x8A \<or> l = 0xA8 \<or> l = 0xA9 \<or> l = 0xAF) \<or>
                   n = 0xE2 \<and> m = 0x81 \<and> l = 0x9F \<or>
                   n = 0xE3 \<and> m = 0x80 \<and> l = 0x80
                then blank s3 else False)
           | [] \<Rightarrow> False)
      | [] \<Rightarrow> False)"

subsection \<open>Certificates from the environment\<close>

record fs_api =
  env_var :: "string \<Rightarrow> string option"
  windows :: bool
  fs_read :: "string \<Rightarrow> bytes option"
  fs_read_dir :: "string \<Rightarrow> string result list option"
  fs_is_file :: "string \<Rightarrow> bool"
  pem_slice_iter :: "bytes \<Rightarrow> bytes result list"
  anchor_ok :: "bytes \<Rightarrow> bool"
  b64_encode :: "bytes \<Rightarrow> string"

fun map_while_ok :: "'a result list \<Rightarrow> 'a list" where
  "map_while_ok (Inr a # rs) = a # map_while_ok rs"
| "map_while_ok _ = []"

definition read_pem :: "fs_api \<Rightarrow> string \<Rightarrow> bytes list" where
  "read_pem F path =
     (case fs_read F path of None \<Rightarrow> [] | Some bytes \<Rightarrow> map_while_ok (pem_slice_iter F bytes))"

definition add_certs :: "bytes list \<Rightarrow> bytes list \<Rightarrow> bytes list" where
  "add_certs found certificates =
     fold (\<lambda>c cs. if c \<in> set cs then cs else cs @ [c]) found certificates"

fun split_on :: "char \<Rightarrow> string \<Rightarrow> string list" where
  "split_on sep [] = [[]]"
| "split_on sep (c # s) =
     (if c = sep then [] # split_on sep s
      else case split_on sep s of part # parts \<Rightarrow> (c # part) # parts | [] \<Rightarrow> [[c]])"

definition dir_files :: "fs_api \<Rightarrow> string \<Rightarrow> string list" where
  "dir_files F dir =
     (case fs_read_dir F dir of
        None \<Rightarrow> []
      | Some es \<Rightarrow> sort (filter (fs_is_file F) (concat (map (\<lambda>e. case e of Inr p \<Rightarrow> [p] | Inl _ \<Rightarrow> []) es))))"

definition env_certificates :: "fs_api \<Rightarrow> bytes list" where
  "env_certificates F =
     (let certificates =
            (case env_var F ''SSL_CERT_FILE'' of
               Some path \<Rightarrow> if blank path then [] else add_certs (read_pem F path) []
             | None \<Rightarrow> []) in
      case env_var F ''SSL_CERT_DIR'' of
        None \<Rightarrow> certificates
      | Some dirs \<Rightarrow>
          fold (\<lambda>dir cs. fold (\<lambda>file cs. add_certs (read_pem F file) cs) (dir_files F dir) cs)
            (filter (\<lambda>dir. \<not> blank dir) (split_on (if windows F then CHR '';'' else CHR '':'') dirs))
            certificates)"

definition usable :: "fs_api \<Rightarrow> bytes list \<Rightarrow> bytes list" where
  "usable F certificates = filter (anchor_ok F) certificates"

definition newline :: string where
  "newline = [CHR 0x0A]"

fun pem_lines :: "string \<Rightarrow> string list" where
  "pem_lines s = (if s = [] then [] else take 64 s # pem_lines (drop 64 s))"

declare pem_lines.simps [simp del]

definition to_pem :: "fs_api \<Rightarrow> bytes \<Rightarrow> string" where
  "to_pem F certificate =
     ''-----BEGIN CERTIFICATE-----'' @ newline @
     concat (map (\<lambda>line. line @ newline) (pem_lines (b64_encode F certificate))) @
     ''-----END CERTIFICATE-----'' @ newline"

definition proxy_configured :: "fs_api \<Rightarrow> bool" where
  "proxy_configured F =
     list_ex (\<lambda>name. case env_var F name of Some v \<Rightarrow> \<not> blank v | None \<Rightarrow> False)
       [''https_proxy'', ''HTTPS_PROXY'', ''all_proxy'', ''ALL_PROXY'']"

subsection \<open>Building a client\<close>

definition DEFAULT_REQUEST_TIMEOUT :: duration where
  "DEFAULT_REQUEST_TIMEOUT = from_secs 300"

definition DEFAULT_READ_TIMEOUT :: duration where
  "DEFAULT_READ_TIMEOUT = from_secs 120"

definition RELAYS_ONLY_REQUEST_TIMEOUT :: duration where
  "RELAYS_ONLY_REQUEST_TIMEOUT = from_secs 10"

text \<open>A call of the builder; \<open>PkarrWith\<close> is the closure that sets the relay client and, relays only, its timeout.\<close>

datatype 'r client_call =
    AddRootPem string
  | PkarrWith 'r "duration option"
  | Testnet
  | TestnetWithHost string
  | RequestTimeout duration
  | ReadTimeout duration
  | PoolMaxIdlePerHost nat
  | MaxErrorBodyBytes nat
  | UserAgentExtra string

record pubky_client_config =
  use_testnet :: bool
  testnet_host :: "string option"
  request_timeout_ms :: "u64 option"
  read_timeout_ms :: "u64 option"
  pool_max_idle_per_host :: "u64 option"
  max_error_body_bytes :: "u64 option"
  user_agent_extra :: "string option"

text \<open>
  What the crate sets of a \<^verbatim>\<open>rustls::ClientConfig\<close>; a trust anchor made of a certificate is that certificate.
\<close>

record tls_config =
  root_store :: "bytes list"
  client_auth :: bool
  alpn_protocols :: "string list"

record ('c, 'r) client_api =
  files :: fs_api
  platform_usize_max :: nat
  TLS_SERVER_ROOTS :: "bytes list"
  relay_client_build :: "tls_config \<Rightarrow> reqwest_error + 'r"
  client_build :: "'r client_call list \<Rightarrow> std_error + 'c"

text \<open>\<^verbatim>\<open>add_parsable_certificates\<close> skips what \<^verbatim>\<open>RootCertStore::add\<close> refuses.\<close>

definition relay_tls_config_without_revocation_check ::
  "('c, 'r) client_api \<Rightarrow> bytes list \<Rightarrow> tls_config" where
  "relay_tls_config_without_revocation_check B extra_roots =
     \<lparr>root_store = TLS_SERVER_ROOTS B @ filter (anchor_ok (files B)) extra_roots,
      client_auth = False, alpn_protocols = [''http/1.1'']\<rparr>"

definition opt_call :: "('a \<Rightarrow> 'b) \<Rightarrow> 'a option \<Rightarrow> 'b list" where
  "opt_call f x = (case x of None \<Rightarrow> [] | Some a \<Rightarrow> [f a])"

definition build_pubky_with ::
  "('c, 'r) client_api \<Rightarrow> bool \<Rightarrow> (pubky_core_error + 'r client_call list) \<Rightarrow> pubky_core_error + 'c" where
  "build_pubky_with B testnet tune =
     (let F = files B; extra_roots = usable F (env_certificates F) in
      case relay_client_build B (relay_tls_config_without_revocation_check B extra_roots) of
        Inl e \<Rightarrow> Inl (from_reqwest_error e)
      | Inr relay_http \<Rightarrow>
          (case tune of
             Inl e \<Rightarrow> Inl e
           | Inr tuning \<Rightarrow>
               (case client_build B
                       (map (AddRootPem \<circ> to_pem F) extra_roots @
                        [PkarrWith relay_http
                           (if proxy_configured F then Some RELAYS_ONLY_REQUEST_TIMEOUT else None)] @
                        (if testnet then [Testnet] else []) @
                        [RequestTimeout DEFAULT_REQUEST_TIMEOUT, ReadTimeout DEFAULT_READ_TIMEOUT] @
                        tuning) of
                  Inl e \<Rightarrow> Inl (from_build_error e)
                | Inr c \<Rightarrow> Inr c)))"

definition build_pubky :: "('c, 'r) client_api \<Rightarrow> bool \<Rightarrow> pubky_core_error + 'c" where
  "build_pubky B testnet = build_pubky_with B testnet (Inr [])"

definition usize_call ::
  "('c, 'r) client_api \<Rightarrow> (nat \<Rightarrow> 'r client_call) \<Rightarrow> string \<Rightarrow> u64 option \<Rightarrow> pubky_core_error + 'r client_call list" where
  "usize_call B f name x =
     (case x of
        None \<Rightarrow> Inr []
      | Some n \<Rightarrow>
          if unat n > platform_usize_max B then Inl (Validation (name @ '' exceeds the platform limit''))
          else Inr [f (unat n)])"

definition tune_client ::
  "('c, 'r) client_api \<Rightarrow> pubky_client_config \<Rightarrow> pubky_core_error + 'r client_call list" where
  "tune_client B cfg =
     and_try (usize_call B PoolMaxIdlePerHost ''pool_max_idle_per_host'' (pool_max_idle_per_host cfg)) (\<lambda>pool.
     and_try (usize_call B MaxErrorBodyBytes ''max_error_body_bytes'' (max_error_body_bytes cfg)) (\<lambda>body.
       Inr (opt_call TestnetWithHost (testnet_host cfg) @
            opt_call (\<lambda>t. RequestTimeout (from_millis (unat t))) (request_timeout_ms cfg) @
            opt_call (\<lambda>t. ReadTimeout (from_millis (unat t))) (read_timeout_ms cfg) @
            pool @ body @ opt_call UserAgentExtra (user_agent_extra cfg))))"

subsection \<open>The network client\<close>

record ('c, 's) network =
  network_client :: 'c
  sessions :: "'s session_store"

definition network_replace :: "'c \<Rightarrow> ('c, 's) network \<Rightarrow> ('c, 's) network" where
  "network_replace new_client n = n\<lparr>network_client := new_client, sessions := clear (sessions n)\<rparr>"

text \<open>A panic is the value \<^term>\<open>None\<close>.\<close>

definition build_pubky_or_panic :: "('c, 'r) client_api \<Rightarrow> bool \<Rightarrow> 'c option" where
  "build_pubky_or_panic B testnet = (case build_pubky B testnet of Inl _ \<Rightarrow> None | Inr c \<Rightarrow> Some c)"

definition network_switch :: "('c, 'r) client_api \<Rightarrow> bool \<Rightarrow> ('c, 's) network \<Rightarrow> ('c, 's) network option" where
  "network_switch B testnet n = map_option (\<lambda>c. network_replace c n) (build_pubky_or_panic B testnet)"

definition configure_client ::
  "('c, 'r) client_api \<Rightarrow> pubky_client_config \<Rightarrow> ('c, 's) network \<Rightarrow> (pubky_core_error + unit) \<times> ('c, 's) network" where
  "configure_client B cfg n =
     (case build_pubky_with B (use_testnet cfg) (tune_client B cfg) of
        Inl e \<Rightarrow> (Inl e, n)
      | Inr c \<Rightarrow> (Inr (), network_replace c n))"

definition get_client :: "('c, 's) network \<Rightarrow> 'c" where
  "get_client n = network_client n"

definition get_http_client :: "('c \<Rightarrow> 'h) \<Rightarrow> ('c, 's) network \<Rightarrow> 'h" where
  "get_http_client http_of n = http_of (get_client n)"

subsection \<open>The client of the process\<close>

text \<open>
  \<^verbatim>\<open>NETWORK_CLIENT\<close> is built on its first use; \<^term>\<open>None\<close> is the cell before that. The session cache is there from
  the start. What a cell is after its initialiser panicked is not said.
\<close>

record ('c, 's) process =
  NETWORK_CLIENT :: "'c option"
  SESSIONS :: "'s session_store"

definition new_process :: "('c, 's) process" where
  "new_process = \<lparr>NETWORK_CLIENT = None, SESSIONS = store_new DEFAULT_CAPACITY\<rparr>"

definition network_new :: "('c, 'r) client_api \<Rightarrow> 'c option" where
  "network_new B = build_pubky_or_panic B False"

definition force_network :: "('c, 'r) client_api \<Rightarrow> ('c, 's) process \<Rightarrow> ('c, 's) network option" where
  "force_network B p =
     map_option (\<lambda>c. \<lparr>network_client = c, sessions = SESSIONS p\<rparr>)
       (case NETWORK_CLIENT p of Some c \<Rightarrow> Some c | None \<Rightarrow> network_new B)"

definition process_of :: "('c, 's) network \<Rightarrow> ('c, 's) process" where
  "process_of n = \<lparr>NETWORK_CLIENT = Some (network_client n), SESSIONS = sessions n\<rparr>"

definition get_pubky_client ::
  "('c, 'r) client_api \<Rightarrow> ('c, 's) process \<Rightarrow> ('c \<times> ('c, 's) process) option" where
  "get_pubky_client B p = map_option (\<lambda>n. (get_client n, process_of n)) (force_network B p)"

definition get_pubky_http_client ::
  "('c \<Rightarrow> 'h) \<Rightarrow> ('c, 'r) client_api \<Rightarrow> ('c, 's) process \<Rightarrow> ('h \<times> ('c, 's) process) option" where
  "get_pubky_http_client http_of B p =
     map_option (\<lambda>n. (get_http_client http_of n, process_of n)) (force_network B p)"

definition configure_client_export ::
  "('c, 'r) client_api \<Rightarrow> pubky_client_config \<Rightarrow> ('c, 's) process \<Rightarrow>
   ((pubky_core_error + unit) \<times> ('c, 's) process) option" where
  "configure_client_export B cfg p =
     map_option (\<lambda>n. apsnd process_of (configure_client B cfg n)) (force_network B p)"

definition switch_network ::
  "('c, 'r) client_api \<Rightarrow> bool \<Rightarrow> ('c, 's) process \<Rightarrow> (string list \<times> ('c, 's) process) option" where
  "switch_network B testnet p =
     map_option (\<lambda>n. ([show_bool False, ''Switched to '' @ (if testnet then ''testnet'' else ''default'') @ '' network''],
                      process_of n))
       (Option.bind (force_network B p) (network_switch B testnet))"


subsection \<open>What the certificates are\<close>

text \<open>The files the environment names, in the order they are read.\<close>

definition cert_files :: "fs_api \<Rightarrow> string list" where
  "cert_files F =
     (case env_var F ''SSL_CERT_FILE'' of Some path \<Rightarrow> if blank path then [] else [path] | None \<Rightarrow> []) @
     (case env_var F ''SSL_CERT_DIR'' of
        None \<Rightarrow> []
      | Some dirs \<Rightarrow>
          concat (map (dir_files F)
            (filter (\<lambda>dir. \<not> blank dir) (split_on (if windows F then CHR '';'' else CHR '':'') dirs))))"

lemma add_certs_append: "add_certs (xs @ ys) cs = add_certs ys (add_certs xs cs)"
  by (simp add: add_certs_def)

lemma add_certs_fold: "fold (\<lambda>file cs. add_certs (r file) cs) fs cs = add_certs (concat (map r fs)) cs"
  by (induction fs arbitrary: cs) (simp_all add: add_certs_append, simp add: add_certs_def)

lemma add_certs_fold2:
  "fold (\<lambda>dir cs. fold (\<lambda>file cs. add_certs (r file) cs) (g dir) cs) ds cs =
     add_certs (concat (map r (concat (map g ds)))) cs"
  by (induction ds arbitrary: cs) (simp_all add: add_certs_append add_certs_fold, simp add: add_certs_def)

lemma env_certificates_eq: "env_certificates F = add_certs (concat (map (read_pem F) (cert_files F))) []"
proof -
  have nil: "add_certs [] cs = cs" for cs by (simp add: add_certs_def)
  show ?thesis
    by (simp add: env_certificates_def cert_files_def add_certs_fold2 add_certs_append nil Let_def
        split: option.split)
qed

lemma add_certs_props: "distinct cs \<Longrightarrow> distinct (add_certs xs cs) \<and> set (add_certs xs cs) = set cs \<union> set xs"
  unfolding add_certs_def by (induction xs arbitrary: cs) auto

lemma add_certs_subseq: "subseq (add_certs xs cs) (cs @ xs)"
  unfolding add_certs_def
proof (induction xs arbitrary: cs)
  case (Cons x xs)
  show ?case
    using Cons [of cs] Cons [of "cs @ [x]"]
    by (auto intro: subseq_order.order_trans [where y = "cs @ xs"] list_emb_append_mono)
qed simp

text \<open>
  What the environment names, said without the code: \<open>part_of\<close> is a part of a text between two separators, and
  a file gives the certificates of its blocks up to the first malformed one.
\<close>

definition part_of :: "char \<Rightarrow> string \<Rightarrow> string \<Rightarrow> bool" where
  "part_of sep s part \<longleftrightarrow> sep \<notin> set part \<and>
     (\<exists>before after. s = before @ part @ after \<and> (before = [] \<or> last before = sep) \<and> (after = [] \<or> hd after = sep))"

definition named_file :: "fs_api \<Rightarrow> string \<Rightarrow> bool" where
  "named_file F file \<longleftrightarrow>
     env_var F ''SSL_CERT_FILE'' = Some file \<and> \<not> blank file \<or>
     (\<exists>dirs dir entries. env_var F ''SSL_CERT_DIR'' = Some dirs \<and>
        part_of (if windows F then CHR '';'' else CHR '':'') dirs dir \<and> \<not> blank dir \<and>
        fs_read_dir F dir = Some entries \<and> Inr file \<in> set entries \<and> fs_is_file F file)"

definition named_certificate :: "fs_api \<Rightarrow> bytes \<Rightarrow> bool" where
  "named_certificate F cert \<longleftrightarrow>
     (\<exists>path bytes good rest. named_file F path \<and> fs_read F path = Some bytes \<and>
        pem_slice_iter F bytes = map Inr good @ Inr cert # rest)"

lemma split_on_not_Nil [simp]: "split_on sep s \<noteq> []"
  by (induction s) (auto split: list.splits)

lemma split_on_clean: "sep \<notin> set part \<Longrightarrow> split_on sep part = [part]"
  by (induction part) auto

lemma split_on_append: "split_on sep (s @ sep # t) = split_on sep s @ split_on sep t"
proof (induction s)
  case (Cons c s)
  then show ?case
    by (cases "split_on sep s") (auto split: list.split)
qed simp

lemma split_on_join: "concat (map (\<lambda>part. sep # part) (split_on sep s)) = sep # s"
proof (induction s)
  case (Cons c s)
  then show ?case by (cases "split_on sep s") auto
qed simp

lemma split_on_parts_clean: "part \<in> set (split_on sep s) \<Longrightarrow> sep \<notin> set part"
proof (induction s arbitrary: part)
  case (Cons c s)
  then show ?case by (cases "split_on sep s") (auto split: if_splits)
qed simp

lemma set_split_on: "part \<in> set (split_on sep s) \<longleftrightarrow> part_of sep s part"
proof
  assume "part_of sep s part"
  then obtain before after where clean: "sep \<notin> set part" and s: "s = before @ part @ after"
    and b: "before = [] \<or> last before = sep" and a: "after = [] \<or> hd after = sep"
    by (auto simp: part_of_def)
  have "part \<in> set (split_on sep (part @ after))"
    using a clean by (cases after) (auto simp: split_on_clean split_on_append)
  moreover have "before = [] \<or> (\<exists>front. before = front @ [sep])"
    using b by (cases before rule: rev_cases) auto
  ultimately show "part \<in> set (split_on sep s)" by (auto simp: s split_on_append)
next
  assume part: "part \<in> set (split_on sep s)"
  then obtain xs ys where xy: "split_on sep s = xs @ part # ys" by (auto simp: in_set_conv_decomp)
  let ?join = "\<lambda>parts. concat (map (\<lambda>part. sep # part) parts)"
  have j: "?join xs @ sep # part @ ?join ys = sep # s" using split_on_join [of sep s] by (simp add: xy)
  obtain before where before: "?join xs @ [sep] = sep # before" by (cases xs) auto
  have "last (sep # before) = sep" unfolding before [symmetric] by simp
  then have last: "before = [] \<or> last before = sep" by (cases "before = []") simp_all
  have "(?join xs @ [sep]) @ part @ ?join ys = sep # s" using j by simp
  then have "s = before @ part @ ?join ys" unfolding before by simp
  moreover have "?join ys = [] \<or> hd (?join ys) = sep" by (cases ys) auto
  ultimately show "part_of sep s part"
    using last split_on_parts_clean [OF part] unfolding part_of_def by blast
qed

lemma set_map_while_ok: "a \<in> set (map_while_ok rs) \<longleftrightarrow> (\<exists>good rest. rs = map Inr good @ Inr a # rest)"
proof (induction rs rule: map_while_ok.induct)
  case (1 b rs)
  show ?case
  proof
    assume "a \<in> set (map_while_ok (Inr b # rs))"
    then consider "a = b" | good rest where "rs = map Inr good @ Inr a # rest" using 1 by auto
    then show "\<exists>good rest. Inr b # rs = map Inr good @ Inr a # rest"
    proof cases
      case 1
      then show ?thesis by (intro exI [of _ "[]"] exI [of _ rs]) simp
    next
      case (2 good rest)
      then show ?thesis by (intro exI [of _ "b # good"]) simp
    qed
  next
    assume "\<exists>good rest. Inr b # rs = map Inr good @ Inr a # rest"
    then obtain good rest where "Inr b # rs = map Inr good @ Inr a # rest" by blast
    then show "a \<in> set (map_while_ok (Inr b # rs))" using 1 by (cases good) auto
  qed
qed (auto simp: Cons_eq_append_conv)

lemma set_dir_files:
  "path \<in> set (dir_files F dir) \<longleftrightarrow> (\<exists>entries. fs_read_dir F dir = Some entries \<and> Inr path \<in> set entries \<and> fs_is_file F path)"
proof (cases "fs_read_dir F dir")
  case (Some entries)
  have "path \<in> set (concat (map (\<lambda>e. case e of Inr p \<Rightarrow> [p] | Inl _ \<Rightarrow> []) entries)) \<longleftrightarrow> Inr path \<in> set entries"
    by (force split: sum.splits)
  then show ?thesis by (auto simp: dir_files_def Some)
qed (simp add: dir_files_def)

lemma set_cert_files: "path \<in> set (cert_files F) \<longleftrightarrow> named_file F path"
proof -
  let ?sep = "if windows F then CHR '';'' else CHR '':''"
  have "path \<in> set (case env_var F ''SSL_CERT_FILE'' of Some p \<Rightarrow> if blank p then [] else [p] | None \<Rightarrow> []) \<longleftrightarrow>
      env_var F ''SSL_CERT_FILE'' = Some path \<and> \<not> blank path"
    by (cases "env_var F ''SSL_CERT_FILE''") auto
  moreover have "path \<in> set (case env_var F ''SSL_CERT_DIR'' of None \<Rightarrow> [] | Some dirs \<Rightarrow>
        concat (map (dir_files F) (filter (\<lambda>dir. \<not> blank dir) (split_on ?sep dirs)))) \<longleftrightarrow>
      (\<exists>dirs dir. env_var F ''SSL_CERT_DIR'' = Some dirs \<and> part_of ?sep dirs dir \<and> \<not> blank dir \<and>
         path \<in> set (dir_files F dir))"
    by (cases "env_var F ''SSL_CERT_DIR''") (auto simp: set_split_on)
  ultimately show ?thesis unfolding cert_files_def named_file_def set_append Un_iff set_dir_files by blast
qed

lemma set_env_certificates: "cert \<in> set (env_certificates F) \<longleftrightarrow> named_certificate F cert"
proof -
  have "cert \<in> set (read_pem F path) \<longleftrightarrow> (\<exists>bytes good rest. fs_read F path = Some bytes \<and>
      pem_slice_iter F bytes = map Inr good @ Inr cert # rest)" for path
    by (cases "fs_read F path") (simp_all add: read_pem_def set_map_while_ok)
  then show ?thesis
    using add_certs_props [of "[]" "concat (map (read_pem F) (cert_files F))"]
    by (simp add: env_certificates_eq named_certificate_def set_cert_files Bex_def)
qed

lemma distinct_env_certificates: "distinct (env_certificates F)"
  using add_certs_props [of "[]"] by (simp add: env_certificates_eq)

lemma proxy_configured_iff:
  "proxy_configured F \<longleftrightarrow> (\<exists>name v. name \<in> {''https_proxy'', ''HTTPS_PROXY'', ''all_proxy'', ''ALL_PROXY''} \<and>
     env_var F name = Some v \<and> \<not> blank v)"
  by (auto simp: proxy_configured_def split: option.splits)

text \<open>The text of a certificate is cut into full lines but for the last.\<close>

lemma pem_lines_Nil: "pem_lines [] = []"
  by (subst pem_lines.simps) simp

lemma pem_lines_step: "s \<noteq> [] \<Longrightarrow> pem_lines s = take 64 s # pem_lines (drop 64 s)"
  by (subst pem_lines.simps) simp

lemma pem_lines_concat: "concat (pem_lines s) = s \<and>
  (\<forall>l\<in>set (pem_lines s). l \<noteq> [] \<and> length l \<le> 64) \<and> (\<forall>l\<in>set (butlast (pem_lines s)). length l = 64)"
proof (induction s rule: pem_lines.induct)
  case (1 s)
  show ?case
  proof (cases "s = []")
    case False
    define line lines where "line = take 64 s" and "lines = pem_lines (drop 64 s)"
    have s: "pem_lines s = line # lines" unfolding line_def lines_def by (rule pem_lines_step [OF False])
    have "lines = []" if "drop 64 s = []" unfolding lines_def that by (rule pem_lines_Nil)
    then have full: "lines \<noteq> [] \<Longrightarrow> length line = 64" by (fastforce simp: line_def)
    note IH = 1 [OF False, folded lines_def]
    have "line @ concat lines = s" unfolding conjunct1 [OF IH] line_def by (rule append_take_drop_id)
    moreover have "line \<noteq> [] \<and> length line \<le> 64" using False by (simp add: line_def)
    ultimately show ?thesis using conjunct2 [OF IH] full unfolding s by (auto split: if_splits)
  qed (simp add: pem_lines_Nil)
qed

lemma split_on_lines:
  "\<forall>l\<in>set ls. sep \<notin> set l \<Longrightarrow> split_on sep (concat (map (\<lambda>l. l @ [sep]) ls) @ s) = ls @ split_on sep s"
  by (induction ls) (simp_all add: split_on_append split_on_clean)

subsection \<open>Which deadlines a client has\<close>

text \<open>A later call of a builder's setter overrides an earlier one.\<close>

fun request_deadline :: "'r client_call list \<Rightarrow> duration option" where
  "request_deadline [] = None"
| "request_deadline (c # cs) =
     (case request_deadline cs of
        Some d \<Rightarrow> Some d
      | None \<Rightarrow> (case c of RequestTimeout d \<Rightarrow> Some d | _ \<Rightarrow> None))"

fun read_deadline :: "'r client_call list \<Rightarrow> duration option" where
  "read_deadline [] = None"
| "read_deadline (c # cs) =
     (case read_deadline cs of
        Some d \<Rightarrow> Some d
      | None \<Rightarrow> (case c of ReadTimeout d \<Rightarrow> Some d | _ \<Rightarrow> None))"

lemma deadline_append:
  "request_deadline (cs @ ds) = (case request_deadline ds of Some d \<Rightarrow> Some d | None \<Rightarrow> request_deadline cs)"
  "read_deadline (cs @ ds) = (case read_deadline ds of Some d \<Rightarrow> Some d | None \<Rightarrow> read_deadline cs)"
  by (induction cs) (auto split: option.splits)

lemma tune_client_calls:
  assumes "tune_client B cfg = Inr calls"
  obtains pool body where "calls = opt_call TestnetWithHost (testnet_host cfg) @
      opt_call (\<lambda>t. RequestTimeout (from_millis (unat t))) (request_timeout_ms cfg) @
      opt_call (\<lambda>t. ReadTimeout (from_millis (unat t))) (read_timeout_ms cfg) @
      pool @ body @ opt_call UserAgentExtra (user_agent_extra cfg)"
    and "usize_call B PoolMaxIdlePerHost ''pool_max_idle_per_host'' (pool_max_idle_per_host cfg) = Inr pool"
    and "usize_call B MaxErrorBodyBytes ''max_error_body_bytes'' (max_error_body_bytes cfg) = Inr body"
  using assms by (auto simp: tune_client_def and_try_Inr)

lemma tune_deadlines:
  assumes "tune_client B cfg = Inr calls"
  shows "request_deadline calls = map_option (\<lambda>t. from_millis (unat t)) (request_timeout_ms cfg)"
    and "read_deadline calls = map_option (\<lambda>t. from_millis (unat t)) (read_timeout_ms cfg)"
proof -
  obtain pool body where c: "calls = opt_call TestnetWithHost (testnet_host cfg) @
      opt_call (\<lambda>t. RequestTimeout (from_millis (unat t))) (request_timeout_ms cfg) @
      opt_call (\<lambda>t. ReadTimeout (from_millis (unat t))) (read_timeout_ms cfg) @
      pool @ body @ opt_call UserAgentExtra (user_agent_extra cfg)"
    and "usize_call B PoolMaxIdlePerHost ''pool_max_idle_per_host'' (pool_max_idle_per_host cfg) = Inr pool"
    and "usize_call B MaxErrorBodyBytes ''max_error_body_bytes'' (max_error_body_bytes cfg) = Inr body"
    using tune_client_calls [OF assms] .
  then have "request_deadline pool = None" "read_deadline pool = None"
    "request_deadline body = None" "read_deadline body = None"
    by (auto simp: usize_call_def split: option.splits if_splits)
  then show "request_deadline calls = map_option (\<lambda>t. from_millis (unat t)) (request_timeout_ms cfg)"
    and "read_deadline calls = map_option (\<lambda>t. from_millis (unat t)) (read_timeout_ms cfg)"
    by (auto simp: c deadline_append opt_call_def split: option.splits)
qed

lemma held_clear [simp]: "held (clear st) k = None"
  by (simp add: held_def clear_def lru_clear_def)

subsection \<open>What a configuration leaves alone\<close>

fun is_root :: "'r client_call \<Rightarrow> bool" where
  "is_root (AddRootPem _) = True"
| "is_root _ = False"

fun is_pkarr :: "'r client_call \<Rightarrow> bool" where
  "is_pkarr (PkarrWith _ _) = True"
| "is_pkarr _ = False"

lemma usize_call_keeps_transport:
  "usize_call B f name x = Inr calls \<Longrightarrow> (\<And>n. \<not> P (f n)) \<Longrightarrow> filter P calls = []"
  by (auto simp: usize_call_def split: option.splits if_splits)

lemma tune_keeps_transport:
  assumes "tune_client B cfg = Inr calls"
  shows "filter is_root calls = []" and "filter is_pkarr calls = []"
proof -
  obtain pool body where calls: "calls = opt_call TestnetWithHost (testnet_host cfg) @
      opt_call (\<lambda>t. RequestTimeout (from_millis (unat t))) (request_timeout_ms cfg) @
      opt_call (\<lambda>t. ReadTimeout (from_millis (unat t))) (read_timeout_ms cfg) @
      pool @ body @ opt_call UserAgentExtra (user_agent_extra cfg)"
    and pool: "usize_call B PoolMaxIdlePerHost ''pool_max_idle_per_host'' (pool_max_idle_per_host cfg) = Inr pool"
    and body: "usize_call B MaxErrorBodyBytes ''max_error_body_bytes'' (max_error_body_bytes cfg) = Inr body"
    using tune_client_calls [OF assms] .
  note kept = usize_call_keeps_transport [OF pool] usize_call_keeps_transport [OF body]
  show "filter is_root calls = []" and "filter is_pkarr calls = []"
    by (simp_all add: calls kept opt_call_def split: option.splits)
qed

text \<open>A configuration that succeeded built its client with the crate's own calls first.\<close>

lemma configure_client_built:
  assumes "configure_client B cfg n = (Inr (), n')"
  obtains tuning relay_http where "tune_client B cfg = Inr tuning"
    and "relay_client_build B (relay_tls_config_without_revocation_check B (usable (files B) (env_certificates (files B)))) =
      Inr relay_http"
    and "client_build B (map (AddRootPem \<circ> to_pem (files B)) (usable (files B) (env_certificates (files B))) @
       [PkarrWith relay_http (if proxy_configured (files B) then Some RELAYS_ONLY_REQUEST_TIMEOUT else None)] @
       (if use_testnet cfg then [Testnet] else []) @
       [RequestTimeout DEFAULT_REQUEST_TIMEOUT, ReadTimeout DEFAULT_READ_TIMEOUT] @ tuning) = Inr (get_client n')"
  using assms
  by (auto simp: configure_client_def build_pubky_with_def network_replace_def get_client_def Let_def
      split: sum.splits)

text \<open>An example: no extra certificates; a client is the number of calls that built it.\<close>

definition example_client :: "(nat, unit) client_api" where
  "example_client =
     \<lparr>files = \<lparr>env_var = \<lambda>_. None, windows = False, fs_read = \<lambda>_. None, fs_read_dir = \<lambda>_. None,
               fs_is_file = \<lambda>_. True, pem_slice_iter = \<lambda>_. [], anchor_ok = \<lambda>_. True, b64_encode = \<lambda>_. []\<rparr>,
      platform_usize_max = 2 ^ 32 - 1, TLS_SERVER_ROOTS = [[1]], relay_client_build = \<lambda>_. Inr (),
      client_build = \<lambda>calls. Inr (length calls)\<rparr>"

definition example_config :: pubky_client_config where
  "example_config =
     \<lparr>use_testnet = False, testnet_host = None, request_timeout_ms = None, read_timeout_ms = Some 5000,
      pool_max_idle_per_host = None, max_error_body_bytes = None, user_agent_extra = None\<rparr>"

lemma example_configured:
  "configure_client example_client example_config
      \<lparr>network_client = 0, sessions = (store_new 4 :: nat session_store)\<rparr> =
      (Inr (), \<lparr>network_client = 4, sessions = clear (store_new 4)\<rparr>)"
  by (simp add: configure_client_def build_pubky_with_def tune_client_def usize_call_def opt_call_def
      network_replace_def usable_def env_certificates_def example_client_def example_config_def Let_def)

definition example_files :: fs_api where
  "example_files =
     \<lparr>env_var = \<lambda>name. if name = ''SSL_CERT_FILE'' then Some ''ca.pem'' else None, windows = False,
      fs_read = \<lambda>_. Some [], fs_read_dir = \<lambda>_. None, fs_is_file = \<lambda>_. True,
      pem_slice_iter = \<lambda>_. [Inr [7], Inl ''malformed''], anchor_ok = \<lambda>_. True, b64_encode = \<lambda>_. ''Bw==''\<rparr>"

lemma example_roots: "usable example_files (env_certificates example_files) = [[7]]"
  by (simp add: usable_def env_certificates_def example_files_def read_pem_def add_certs_def)

subsection \<open>Properties\<close>

text \<open>
  Every certificate the environment names is offered once, in the order of the files: the
  certificates of the readable files together, without duplicates; a file that cannot be read or ends in
  a malformed block costs only itself.
\<close>

theorem env_certificates_complete_and_distinct:
  "distinct (env_certificates F) \<and>
   set (env_certificates F) = (\<Union>file\<in>set (cert_files F). set (read_pem F file)) \<and>
   subseq (env_certificates F) (concat (map (read_pem F) (cert_files F)))"
  using add_certs_props [of "[]" "concat (map (read_pem F) (cert_files F))"]
    add_certs_subseq [of "concat (map (read_pem F) (cert_files F))" "[]"]
  by (simp add: env_certificates_eq)

text \<open>
  C24 (safety). Reconfiguring is all or nothing, and no client is ever without a deadline. A configuration
  that fails changes neither the client nor the cached sessions. One that succeeds installs the client,
  drops every cached session of the old network, and gives the client the deadlines asked for, or, where
  none is asked for, 300 seconds for a request and 120 seconds until the response head.
\<close>

theorem configure_client_all_or_nothing:
  "(\<forall>e n'. configure_client B cfg n = (Inl e, n') \<longrightarrow> n' = n) \<and>
   (\<forall>n'. configure_client B cfg n = (Inr (), n') \<longrightarrow>
      (\<forall>k. held (sessions n') k = None) \<and>
      (\<exists>calls. client_build B calls = Inr (get_client n') \<and>
         request_deadline calls = Some (case request_timeout_ms cfg of
           None \<Rightarrow> from_secs 300 | Some t \<Rightarrow> from_millis (unat t)) \<and>
         read_deadline calls = Some (case read_timeout_ms cfg of
           None \<Rightarrow> from_secs 120 | Some t \<Rightarrow> from_millis (unat t))))"
proof (intro conjI allI impI)
  show "n' = n" if "configure_client B cfg n = (Inl e, n')" for e n'
    using that by (auto simp: configure_client_def split: sum.splits)
next
  fix n' assume ok: "configure_client B cfg n = (Inr (), n')"
  then show "held (sessions n') k = None" for k
    by (auto simp: configure_client_def network_replace_def split: sum.splits)
  let ?F = "files B"
  let ?roots = "usable ?F (env_certificates ?F)"
  obtain tuning relay_http where t: "tune_client B cfg = Inr tuning"
    and c: "client_build B
                       (map (AddRootPem \<circ> to_pem ?F) ?roots @
                        [PkarrWith relay_http
                           (if proxy_configured ?F then Some RELAYS_ONLY_REQUEST_TIMEOUT else None)] @
                        (if use_testnet cfg then [Testnet] else []) @
                        [RequestTimeout DEFAULT_REQUEST_TIMEOUT, ReadTimeout DEFAULT_READ_TIMEOUT] @
                        tuning) = Inr (get_client n')" (is "client_build B ?calls = _")
    using configure_client_built [OF ok] by blast
  have "request_deadline ?calls = Some (case request_timeout_ms cfg of
           None \<Rightarrow> from_secs 300 | Some t \<Rightarrow> from_millis (unat t))"
    and "read_deadline ?calls = Some (case read_timeout_ms cfg of
           None \<Rightarrow> from_secs 120 | Some t \<Rightarrow> from_millis (unat t))"
    using tune_deadlines [OF t]
    by (auto simp: deadline_append DEFAULT_REQUEST_TIMEOUT_def DEFAULT_READ_TIMEOUT_def split: option.splits)
  with c show "\<exists>calls. client_build B calls = Inr (get_client n') \<and>
         request_deadline calls = Some (case request_timeout_ms cfg of
           None \<Rightarrow> from_secs 300 | Some t \<Rightarrow> from_millis (unat t)) \<and>
         read_deadline calls = Some (case read_timeout_ms cfg of
           None \<Rightarrow> from_secs 120 | Some t \<Rightarrow> from_millis (unat t))"
    by blast
qed

text \<open>
  C25 (safety). Trust survives a reconfiguration. A client that was configured trusts exactly the usable
  certificates the environment names, each once and on both of its paths: those of the file \<^verbatim>\<open>SSL_CERT_FILE\<close>
  and of the regular files of the directories listed in \<^verbatim>\<open>SSL_CERT_DIR\<close>, up to the first malformed block of a
  file, and of these the ones a root store accepts. The SDK is given them as its extra roots; the relay
  client, which is the only one installed for lookups, is built with them beside the bundled roots, without
  client certificates and for HTTP/1.1; and lookups are left to relays, with a deadline of 10 seconds,
  exactly when a proxy is configured. Nothing the configuration asks for changes any of this.
\<close>

theorem configured_client_keeps_trust:
  assumes "configure_client B cfg n = (Inr (), n')"
  shows "\<exists>calls relay_http roots.
    client_build B calls = Inr (get_client n') \<and> distinct roots \<and>
    (\<forall>cert. cert \<in> set roots \<longleftrightarrow> named_certificate (files B) cert \<and> anchor_ok (files B) cert) \<and>
    [c \<leftarrow> calls. is_root c] = map (AddRootPem \<circ> to_pem (files B)) roots \<and>
    [c \<leftarrow> calls. is_pkarr c] = [PkarrWith relay_http
      (if \<exists>name v. name \<in> {''https_proxy'', ''HTTPS_PROXY'', ''all_proxy'', ''ALL_PROXY''} \<and>
          env_var (files B) name = Some v \<and> \<not> blank v then Some (from_secs 10) else None)] \<and>
    relay_client_build B
      \<lparr>root_store = TLS_SERVER_ROOTS B @ roots, client_auth = False, alpn_protocols = [''http/1.1'']\<rparr> = Inr relay_http"
proof -
  let ?roots = "usable (files B) (env_certificates (files B))"
  have u: "filter (anchor_ok (files B)) ?roots = ?roots" by (simp add: usable_def)
  obtain tuning relay_http where t: "tune_client B cfg = Inr tuning"
    and r: "relay_client_build B (relay_tls_config_without_revocation_check B ?roots) = Inr relay_http"
    and c: "client_build B (map (AddRootPem \<circ> to_pem (files B)) ?roots @
       [PkarrWith relay_http (if proxy_configured (files B) then Some RELAYS_ONLY_REQUEST_TIMEOUT else None)] @
       (if use_testnet cfg then [Testnet] else []) @
       [RequestTimeout DEFAULT_REQUEST_TIMEOUT, ReadTimeout DEFAULT_READ_TIMEOUT] @ tuning) = Inr (get_client n')"
      (is "client_build B ?calls = _")
    using configure_client_built [OF assms] by blast
  note k = tune_keeps_transport [OF t]
  have "distinct ?roots" by (simp add: usable_def distinct_env_certificates)
  moreover have "cert \<in> set ?roots \<longleftrightarrow> named_certificate (files B) cert \<and> anchor_ok (files B) cert" for cert
    by (auto simp: usable_def set_env_certificates)
  moreover have "[c \<leftarrow> ?calls. is_root c] = map (AddRootPem \<circ> to_pem (files B)) ?roots"
    by (simp add: k filter_map comp_def)
  moreover have "[c \<leftarrow> ?calls. is_pkarr c] =
      [PkarrWith relay_http (if proxy_configured (files B) then Some (from_secs 10) else None)]"
    by (simp add: k filter_map comp_def RELAYS_ONLY_REQUEST_TIMEOUT_def)
  moreover note r [unfolded relay_tls_config_without_revocation_check_def u]
  ultimately show ?thesis
    using c unfolding proxy_configured_iff by blast
qed

theorem configured_client_keeps_trust_witness:
  "let B = example_client\<lparr>files := example_files\<rparr> in
   \<exists>calls roots. client_build B calls = Inr 5 \<and> (\<forall>cert. cert \<in> set roots \<longleftrightarrow> named_certificate example_files cert) \<and>
     [c \<leftarrow> calls. is_root c] = map (AddRootPem \<circ> to_pem example_files) roots"
proof -
  let ?B = "example_client\<lparr>files := example_files\<rparr>"
  have f: "files ?B = example_files" and a: "anchor_ok example_files cert" for cert
    by (simp_all add: example_files_def)
  have "configure_client ?B example_config \<lparr>network_client = 0, sessions = (store_new 4 :: nat session_store)\<rparr> =
      (Inr (), \<lparr>network_client = 5, sessions = clear (store_new 4)\<rparr>)"
    by (simp add: configure_client_def build_pubky_with_def tune_client_def usize_call_def opt_call_def
        example_roots) (simp add: network_replace_def example_client_def example_config_def)
  from configured_client_keeps_trust [OF this, unfolded f] show ?thesis
    by (simp add: get_client_def a Let_def) blast
qed

text \<open>
  C33 (roundtrip). The PEM text of a certificate can be taken apart again: its lines are the opening line, the
  body and the closing line, with nothing after the last line break; the lines of the body are full, of 64
  characters, but for the last, none is empty, and together they are the certificate's base64 text.
\<close>

theorem pem_text_roundtrip:
  assumes "CHR 0x0A \<notin> set (b64_encode F certificate)"
  shows "\<exists>body. split_on (CHR 0x0A) (to_pem F certificate) =
      ''-----BEGIN CERTIFICATE-----'' # body @ [''-----END CERTIFICATE-----'', []] \<and>
    concat body = b64_encode F certificate \<and>
    (\<forall>l\<in>set body. 1 \<le> length l \<and> length l \<le> 64) \<and> (\<forall>l\<in>set (butlast body). length l = 64)"
proof -
  let ?body = "pem_lines (b64_encode F certificate)"
  let ?lines = "''-----BEGIN CERTIFICATE-----'' # ?body @ [''-----END CERTIFICATE-----'']"
  note b = pem_lines_concat [of "b64_encode F certificate"]
  have "CHR 0x0A \<notin> set l" if "l \<in> set ?body" for l
    using that assms b by (metis UN_I set_concat)
  then have "\<forall>l\<in>set ?lines. CHR 0x0A \<notin> set l" by auto
  from split_on_lines [OF this, of "[]"] have
    "split_on (CHR 0x0A) (to_pem F certificate) = ?lines @ [[]]"
    by (simp add: to_pem_def newline_def)
  moreover have "1 \<le> length l \<and> length l \<le> 64" if "l \<in> set ?body" for l
  proof -
    have "l \<noteq> []" "length l \<le> 64" using that b by blast+
    then show ?thesis by (simp add: Suc_le_eq)
  qed
  ultimately show ?thesis using b by (intro exI [of _ ?body]) simp
qed

theorem pem_text_roundtrip_witness:
  "\<exists>body. split_on (CHR 0x0A) (to_pem example_files [7]) =
     ''-----BEGIN CERTIFICATE-----'' # body @ [''-----END CERTIFICATE-----'', []] \<and> concat body = ''Bw==''"
  using pem_text_roundtrip [of example_files "[7]"] by (auto simp: example_files_def)

text \<open>
  The client is built once, on first use, whatever becomes of the environment later; and a
  configuration, too, needs the default client first.
\<close>

lemma client_built_once:
  "get_pubky_client B p = Some (c, p') \<Longrightarrow> get_pubky_client B' p' = Some (c, p')"
  by (auto simp: get_pubky_client_def force_network_def process_of_def get_client_def)

lemma configure_needs_default_client:
  "NETWORK_CLIENT p = None \<Longrightarrow> build_pubky B False = Inl e \<Longrightarrow>
   configure_client_export B cfg p = None \<and> switch_network B testnet p = None"
  by (simp add: configure_client_export_def switch_network_def force_network_def network_new_def
      build_pubky_or_panic_def)

theorem configure_client_all_or_nothing_witness:
  "\<exists>calls. client_build example_client calls = Inr 4 \<and> request_deadline calls = Some (from_secs 300) \<and>
     read_deadline calls = Some (from_millis 5000)"
proof -
  show ?thesis
    using configure_client_all_or_nothing [of example_client example_config
        "\<lparr>network_client = 0, sessions = (store_new 4 :: nat session_store)\<rparr>"] example_configured
    by (simp add: get_client_def example_config_def)
qed

end
