(* ===== verification/Grant_Features.thy ===== *)
theory Grant_Features
  imports Deep_Links
begin

section \<open>Grant proofs and encryption keys\<close>

text \<open>
  Models \<^verbatim>\<open>src/grant_features.rs\<close>: the local operations on a grant credential. The credential, the proof of
  possession and the derived keys are the SDK's, the parameter \<open>grant_api\<close>.
\<close>

record custom_grant_proof =
  proof_grant :: string
  proof_text :: string

record verified_custom_grant_proof =
  vp_identity :: string
  vp_client_id :: string
  vp_client_public_key :: string
  vp_grant_id :: string
  vp_capabilities :: "capability list"
  vp_grant_issued_at :: u64
  vp_grant_expires_at :: u64
  vp_proof_issued_at :: u64
  vp_nonce :: string
  vp_data_json :: string

text \<open>What the source reads of the SDK's verified proof; capabilities are their \<^verbatim>\<open>scope:actions\<close> texts.\<close>

record 'd verified_pop =
  pop_identity :: string
  pop_client_id :: string
  pop_cnf :: string
  pop_jti :: string
  pop_caps :: "string list"
  pop_grant_iat :: u64
  pop_grant_exp :: u64
  pop_iat :: u64
  pop_nonce :: string
  pop_data :: 'd

record pop_error =
  pop_display :: string
  grant_expired :: bool

record ('c, 's, 'g, 'k, 'd, 'w) grant_api =
  credential_of :: "string \<Rightarrow> (sdk_error + 'c)"
  session_of :: "'c \<Rightarrow> 's"
  grant_of :: "'s \<Rightarrow> 'g option"
  data_from_str :: "string \<Rightarrow> 'd result"
  data_to_string :: "'d \<Rightarrow> (std_error + string)"
  create_custom_pop :: "'g \<Rightarrow> 'd \<Rightarrow> 'w \<Rightarrow> (pop_error + (string \<times> string)) \<times> 'w"
  verify_custom_grant_pop :: "string \<times> string \<Rightarrow> duration \<Rightarrow> 'd verified_pop result"
  restore_encryption_keys :: "string \<Rightarrow> (sdk_error + 'k option)"
  key_scopes :: "'k \<Rightarrow> string list"
  storage_path_new :: "string \<Rightarrow> string result"
  derive_for_path :: "'k \<Rightarrow> string \<Rightarrow> bytes result"
  signed_approval_of :: "'c \<Rightarrow> string option"

definition validation_error :: "string \<Rightarrow> pubky_core_error" where
  "validation_error details = Validation details"

definition local_grant_session ::
  "('c, 's, 'g, 'k, 'd, 'w) grant_api \<Rightarrow> string \<Rightarrow> pubky_core_error + 's" where
  "local_grant_session G secret =
     map_sum from_sdk_error (session_of G) (credential_of G secret)"

definition create_custom_grant_proof ::
  "('c, 's, 'g, 'k, 'd, 'w) grant_api \<Rightarrow> string \<Rightarrow> string \<Rightarrow> 'w \<Rightarrow> (pubky_core_error + custom_grant_proof) \<times> 'w" where
  "create_custom_grant_proof G session_secret data_json w =
     (case data_from_str G data_json of
        Inl e \<Rightarrow> (Inl (validation_error e), w)
      | Inr data \<Rightarrow>
     (case local_grant_session G session_secret of
        Inl e \<Rightarrow> (Inl e, w)
      | Inr session \<Rightarrow>
     (case grant_of G session of
        None \<Rightarrow> (Inl (State ''Session is not grant-backed''), w)
      | Some grant \<Rightarrow>
     (case create_custom_pop G grant data w of
        (Inl e, w) \<Rightarrow> (Inl (AuthenticationFailed (pop_display e) (grant_expired e)), w)
      | (Inr (g, p), w) \<Rightarrow> (Inr \<lparr>proof_grant = g, proof_text = p\<rparr>, w)))))"

definition verify_custom_grant_proof ::
  "('c, 's, 'g, 'k, 'd, 'w) grant_api \<Rightarrow> custom_grant_proof \<Rightarrow> u64 \<Rightarrow> pubky_core_error + verified_custom_grant_proof" where
  "verify_custom_grant_proof G pf clock_skew_seconds =
     (case verify_custom_grant_pop G (proof_grant pf, proof_text pf) (from_secs (unat clock_skew_seconds)) of
        Inl e \<Rightarrow> Inl (validation_error e)
      | Inr v \<Rightarrow>
          map_sum from_serde_error
            (\<lambda>text. \<lparr>vp_identity = pop_identity v, vp_client_id = pop_client_id v, vp_client_public_key = pop_cnf v,
               vp_grant_id = pop_jti v, vp_capabilities = map capability_record (pop_caps v),
               vp_grant_issued_at = pop_grant_iat v, vp_grant_expires_at = pop_grant_exp v,
               vp_proof_issued_at = pop_iat v, vp_nonce = pop_nonce v, vp_data_json = text\<rparr>)
            (data_to_string G (pop_data v)))"

definition grant_encryption_key_scopes ::
  "('c, 's, 'g, 'k, 'd, 'w) grant_api \<Rightarrow> string \<Rightarrow> pubky_core_error + string list option" where
  "grant_encryption_key_scopes G session_secret =
     map_sum from_sdk_error (map_option (key_scopes G)) (restore_encryption_keys G session_secret)"

definition derive_grant_encryption_key ::
  "('c, 's, 'g, 'k, 'd, 'w) grant_api \<Rightarrow> string \<Rightarrow> string \<Rightarrow> pubky_core_error + bytes option" where
  "derive_grant_encryption_key G session_secret path =
     (case storage_path_new G path of
        Inl e \<Rightarrow> Inl (validation_error e)
      | Inr path \<Rightarrow>
     (case restore_encryption_keys G session_secret of
        Inl e \<Rightarrow> Inl (from_sdk_error e)
      | Inr None \<Rightarrow> Inr None
      | Inr (Some keys) \<Rightarrow>
     (case derive_for_path G keys path of
        Inl e \<Rightarrow> Inl (validation_error e)
      | Inr key \<Rightarrow> Inr (Some key))))"

definition grant_signed_approval ::
  "('c, 's, 'g, 'k, 'd, 'w) grant_api \<Rightarrow> string \<Rightarrow> pubky_core_error + string option" where
  "grant_signed_approval G session_secret =
     map_sum from_sdk_error (signed_approval_of G) (credential_of G session_secret)"

subsection \<open>What is checked, and in which order\<close>

text \<open>Data that is not JSON is refused before the credential is looked at, whatever the credential is.\<close>

lemma proof_data_checked_first:
  "data_from_str G data_json = Inl e \<Longrightarrow>
   create_custom_grant_proof G session_secret data_json w = (Inl (Validation e), w)"
  by (simp add: create_custom_grant_proof_def validation_error_def)

text \<open>The verified capabilities still say what the grant said: joining path and permission gives it back.\<close>

lemma verified_capabilities_faithful:
  assumes "verify_custom_grant_pop G (proof_grant pf, proof_text pf) (from_secs (unat skew)) = Inr v"
    and "verify_custom_grant_proof G pf skew = Inr r"
    and "\<forall>c\<in>set (pop_caps v). CHR '':'' \<in> set c"
  shows "map (\<lambda>c. cap_path c @ '':'' @ permission c) (vp_capabilities r) = pop_caps v"
proof -
  have "vp_capabilities r = map capability_record (pop_caps v)"
    using assms(1,2) by (cases "data_to_string G (pop_data v)") (auto simp: verify_custom_grant_proof_def)
  then show ?thesis
    using assms(3) capability_record_join by (auto intro!: map_idI)
qed

text \<open>A legacy grant has neither scopes nor keys, and says so rather than failing.\<close>

lemma legacy_grant_has_no_keys:
  assumes "restore_encryption_keys G secret = Inr None"
  shows "grant_encryption_key_scopes G secret = Inr None"
    and "storage_path_new G path = Inr p \<Longrightarrow> derive_grant_encryption_key G secret path = Inr None"
  using assms by (simp_all add: grant_encryption_key_scopes_def derive_grant_encryption_key_def)

end
