(* ===== verification/Poisoned_Locks.thy ===== *)
theory Poisoned_Locks
  imports Session_Store Flow_Handles
begin

section \<open>Locks that outlive a panic\<close>

text \<open>
  A \<^verbatim>\<open>std\<close> mutex is poisoned when a thread panics while it holds it: the data stays as the panic left it, and
  every later \<^verbatim>\<open>lock()\<close> answers an error that carries the guard. \<^verbatim>\<open>session_cache.rs\<close> and
  \<^verbatim>\<open>auth_flow_handles.rs\<close> take that guard (\<^verbatim>\<open>into_inner\<close>) and go on; the other mutexes of the crate are taken with
  \<^verbatim>\<open>unwrap()\<close>, which panics again.

  A critical section is the list of the states the data passes through, one per statement, the last
  being the state it is meant to leave. Going on is sound when each of them is; this is the locale
  \<open>recovering\<close>, interpreted on the session cache and on the registry of sign-ins.
\<close>

subsection \<open>Mutexes\<close>

record 'a mutex =
  guarded :: 'a
  poisoned :: bool

definition mutex_new :: "'a \<Rightarrow> 'a mutex" where
  "mutex_new d = \<lparr>guarded = d, poisoned = False\<rparr>"

definition mutex_lock :: "'a mutex \<Rightarrow> 'a + 'a" where
  "mutex_lock m = (if poisoned m then Inl (guarded m) else Inr (guarded m))"

definition lock_unwrap :: "'a mutex \<Rightarrow> 'a option" where
  "lock_unwrap m = (case mutex_lock m of Inr d \<Rightarrow> Some d | Inl _ \<Rightarrow> None)"

definition lru_guard :: "'s lru mutex \<Rightarrow> 's lru" where
  "lru_guard m = (case mutex_lock m of Inr d \<Rightarrow> d | Inl d \<Rightarrow> d)"

definition minting_guard :: "nat hmap mutex \<Rightarrow> nat hmap" where
  "minting_guard m = (case mutex_lock m of Inr d \<Rightarrow> d | Inl d \<Rightarrow> d)"

definition flows_guard :: "('f, 'n) registry mutex \<Rightarrow> ('f, 'n) registry" where
  "flows_guard m = (case mutex_lock m of Inr d \<Rightarrow> d | Inl d \<Rightarrow> d)"

definition limits_guard :: "limits mutex \<Rightarrow> limits" where
  "limits_guard m = (case mutex_lock m of Inr d \<Rightarrow> d | Inl d \<Rightarrow> d)"

lemma guards [simp]:
  "lru_guard c = guarded c" "minting_guard k = guarded k" "flows_guard r = guarded r" "limits_guard l = guarded l"
  by (simp_all add: lru_guard_def minting_guard_def flows_guard_def limits_guard_def mutex_lock_def)

text \<open>A section runs to its end, or a panic strikes between two of its statements.\<close>

inductive section_step :: "('a \<Rightarrow> 'a list \<Rightarrow> bool) \<Rightarrow> 'a mutex \<Rightarrow> 'a mutex \<Rightarrow> bool" for sections where
  completes: "sections (guarded m) ps \<Longrightarrow> section_step sections m (m\<lparr>guarded := last ps\<rparr>)"
| panics: "sections (guarded m) ps \<Longrightarrow> d \<in> set ps \<Longrightarrow>
    section_step sections m \<lparr>guarded = d, poisoned = True\<rparr>"

locale recovering =
  fixes sound :: "'a \<Rightarrow> bool" and sections :: "'a \<Rightarrow> 'a list \<Rightarrow> bool"
  assumes points_sound: "sound d \<Longrightarrow> sections d ps \<Longrightarrow> d' \<in> set ps \<Longrightarrow> sound d'"
    and some_point: "sections d ps \<Longrightarrow> ps \<noteq> []"
begin

lemma step_sound: "section_step sections m m' \<Longrightarrow> sound (guarded m) \<Longrightarrow> sound (guarded m')"
proof (induction rule: section_step.induct)
  case (completes m ps)
  then show ?case using points_sound last_in_set [OF some_point] by simp
qed (auto intro: points_sound)

lemma run_sound: "(section_step sections)\<^sup>*\<^sup>* m m' \<Longrightarrow> sound (guarded m) \<Longrightarrow> sound (guarded m')"
  by (induction rule: rtranclp_induct) (auto dest: step_sound)

end

subsection \<open>The sections of the session cache\<close>

definition lru_get_points :: "'s lru \<Rightarrow> string \<Rightarrow> 's lru list" where
  "lru_get_points c secret = [c, snd (tick c), snd (lru_get c secret)]"

function trim_points :: "nat \<Rightarrow> 's entry hmap \<Rightarrow> 's entry hmap list" where
  "trim_points len m =
     m # (if length m > len
          then (case oldest m of None \<Rightarrow> [] | Some (secret, _) \<Rightarrow> trim_points len (hm_remove secret m))
          else [])"
  by pat_completeness auto
termination
  by (relation "measure (\<lambda>(len, m). length m)") (auto dest!: oldest_in length_remove_less)

declare trim_points.simps [simp del]

definition trim_to_points :: "'s lru \<Rightarrow> nat \<Rightarrow> 's lru list" where
  "trim_to_points c len = map (\<lambda>m. c\<lparr>entries := m\<rparr>) (trim_points len (entries c))"

definition lru_insert_points :: "'s lru \<Rightarrow> string \<Rightarrow> 's \<Rightarrow> 's lru list" where
  "lru_insert_points c secret v =
     (let trimmed = (if hm_contains (entries c) secret then [c] else trim_to_points c (capacity c - 1)) in
      trimmed @ [snd (tick (last trimmed)), lru_insert c secret v])"

definition lru_set_capacity_points :: "'s lru \<Rightarrow> nat \<Rightarrow> 's lru list" where
  "lru_set_capacity_points c cap = c # trim_to_points (c\<lparr>capacity := max cap 1\<rparr>) (max cap 1)"

lemma last_trim_points: "trim_points len m \<noteq> [] \<and> last (trim_points len m) = trim_entries len m"
proof (induction len m rule: trim_points.induct)
  case (1 len m)
  then show ?case
    by (subst (1 2) trim_points.simps, subst trim_entries.simps) (auto split: option.split)
qed

text \<open>The last point is what the operation is meant to leave.\<close>

lemma last_points:
  "last (lru_get_points c k) = snd (lru_get c k)" "last (lru_insert_points c k v) = lru_insert c k v"
  "last (lru_set_capacity_points c cap) = lru_set_capacity c cap"
  using last_trim_points [of "max cap 1" "entries c"]
  by (simp_all add: lru_get_points_def lru_insert_points_def lru_set_capacity_points_def trim_to_points_def
      lru_set_capacity_def trim_to_def last_map Let_def)

text \<open>
  \<open>own k v\<close> says that \<open>v\<close> is a session of the secret \<open>k\<close>. The bound by the capacity is not part of what every
  point keeps: \<^verbatim>\<open>set_capacity\<close> lowers the capacity before it evicts.
\<close>

definition lru_sound :: "(string \<Rightarrow> 's \<Rightarrow> bool) \<Rightarrow> 's lru \<Rightarrow> bool" where
  "lru_sound own c \<longleftrightarrow> hm_ok (entries c) \<and> distinct (map used (entries c)) \<and> 1 \<le> capacity c \<and>
     (\<forall>x\<in>set (entries c). minted (snd x) \<le> used x \<and> used x \<le> clock c \<and> own (fst x) (entry_value (snd x)))"

inductive lru_section :: "(string \<Rightarrow> 's \<Rightarrow> bool) \<Rightarrow> 's lru \<Rightarrow> 's lru list \<Rightarrow> bool" for own c where
  look: "no_wrap c \<Longrightarrow> lru_section own c (lru_get_points c secret)"
| insert: "no_wrap c \<Longrightarrow> own secret v \<Longrightarrow> lru_section own c (lru_insert_points c secret v)"
| resize: "lru_section own c (lru_set_capacity_points c cap)"
| forget: "lru_section own c [c, lru_forget c secret]"
| clear: "lru_section own c [c, lru_clear c]"
| read: "lru_section own c [c]"

lemma trim_points_short: "m' \<in> set (trim_points len m) \<Longrightarrow> length m \<le> len \<Longrightarrow> m' = m"
  by (subst (asm) trim_points.simps) simp

lemma trim_points_long:
  "m' \<in> set (trim_points len m) \<Longrightarrow> length m > len \<Longrightarrow> oldest m = Some x \<Longrightarrow>
   m' = m \<or> m' \<in> set (trim_points len (hm_remove (fst x) m))"
  by (subst (asm) trim_points.simps, cases x) simp

lemma trim_points_subset: "m' \<in> set (trim_points len m) \<Longrightarrow> \<exists>P. m' = filter P m"
proof (induction "length m" arbitrary: m rule: less_induct)
  case less
  from less.prems consider "m' = m"
    | x where "oldest m = Some x" "m' \<in> set (trim_points len (hm_remove (fst x) m))"
    using trim_points_short trim_points_long by (metis leI less_nat_zero_code list.size(3) oldest_None option.exhaust)
  then show ?case
  proof cases
    case 1
    then show ?thesis by (auto intro: exI [of _ "\<lambda>_. True"])
  next
    case 2
    then have "length (hm_remove (fst x) m) < length m"
      using length_remove_less oldest_in by (metis prod.collapse)
    then obtain P where "m' = filter P (hm_remove (fst x) m)"
      using less.hyps 2(2) by blast
    then show ?thesis by (auto simp: hm_remove_filter)
  qed
qed

lemma lru_sound_filter: "lru_sound own c \<Longrightarrow> lru_sound own (c\<lparr>entries := filter P (entries c)\<rparr>)"
  by (auto simp: lru_sound_def intro: distinct_used_filter)

lemma lru_sound_trim: "lru_sound own c \<Longrightarrow> c' \<in> set (trim_to_points c len) \<Longrightarrow> lru_sound own c'"
  by (auto simp: trim_to_points_def dest!: trim_points_subset intro: lru_sound_filter)

lemma lru_sound_capacity: "lru_sound own c \<Longrightarrow> lru_sound own (c\<lparr>capacity := max cap 1\<rparr>)"
  by (simp add: lru_sound_def)

lemma lru_sound_tick: "lru_sound own c \<Longrightarrow> no_wrap c \<Longrightarrow> lru_sound own (snd (tick c))"
  using word_succ_gt [of "clock c"] by (auto simp: lru_sound_def tick_def Let_def less_imp_le)

lemma lru_sound_put:
  assumes "lru_sound own c" and "no_wrap c" and "minted e \<le> clock c + 1" and "own k (entry_value e)"
  shows "lru_sound own (c\<lparr>clock := clock c + 1,
                          entries := hm_insert k (e\<lparr>last_used := clock c + 1\<rparr>) (entries c)\<rparr>)"
proof -
  have lt: "\<forall>x\<in>set (entries c). used x < clock c + 1"
    using assms(1,2) by (auto simp: lru_sound_def intro: word_succ_gt)
  have "distinct (map used (hm_insert k (e\<lparr>last_used := clock c + 1\<rparr>) (entries c)))"
    using assms(1) lt by (intro distinct_used_insert) (auto simp: lru_sound_def)
  then show ?thesis
    using assms lt by (auto simp: lru_sound_def set_hm_insert less_imp_le)
qed

lemma lru_sound_get:
  assumes "lru_sound own c" and "no_wrap c"
  shows "lru_sound own (snd (lru_get c k))"
proof (cases "hm_get (entries c) k")
  case None
  then show ?thesis using lru_sound_tick [OF assms] by (simp add: lru_get_def tick_def Let_def)
next
  case (Some e)
  then have "minted e \<le> clock c + 1" "own k (entry_value e)"
    using assms word_succ_gt [OF assms(2)]
    by (fastforce simp: lru_sound_def dest!: hm_get_in_set intro: less_imp_le order.trans)+
  then show ?thesis
    using lru_sound_put [OF assms, of e k] Some by (simp add: lru_defs)
qed

text \<open>An insertion, from the point where the cache has been trimmed.\<close>

lemma lru_sound_insert:
  assumes "lru_sound own c" and "no_wrap c" and "own k v"
    and trimmed: "c' = (if hm_contains (entries c) k then c else trim_to c (capacity c - 1))"
  shows "lru_sound own c'" and "no_wrap c'" and "lru_sound own (lru_insert c k v)"
proof -
  show c': "lru_sound own c'" "no_wrap c'"
    using assms trim_entries_subset [of "capacity c - 1" "entries c"] lru_sound_filter [of own c]
    by (auto simp: trim_to_def)
  then show "lru_sound own (lru_insert c k v)"
    using lru_sound_put [OF c', of "\<lparr>entry_value = v, last_used = 0, minted = clock c' + 1\<rparr>" k] assms(3)
    by (simp add: lru_insert_def tick_def Let_def trimmed)
qed

lemma last_trimmed:
  "last (if hm_contains (entries c) k then [c] else trim_to_points c len) =
     (if hm_contains (entries c) k then c else trim_to c len)"
  using last_trim_points [of len "entries c"] by (simp add: trim_to_points_def trim_to_def last_map)

interpretation cache: recovering "lru_sound own" "lru_section own"
proof
  fix c c' :: "'a lru" and ps
  assume "lru_sound own c" and "lru_section own c ps" and "c' \<in> set ps"
  from this(2,1,3) show "lru_sound own c'"
  proof cases
    case (look k)
    then show ?thesis
      using \<open>lru_sound own c\<close> \<open>c' \<in> set ps\<close> lru_sound_tick lru_sound_get by (auto simp: lru_get_points_def)
  next
    case (insert k v)
    note ins = lru_sound_insert [OF \<open>lru_sound own c\<close> insert(2,3) refl]
    show ?thesis
      using \<open>c' \<in> set ps\<close> \<open>lru_sound own c\<close> ins lru_sound_tick [OF ins(1,2)] lru_sound_trim
      unfolding insert(1) lru_insert_points_def Let_def last_trimmed
      by (auto split: if_splits)
  qed (auto simp: lru_set_capacity_points_def lru_forget_def lru_clear_def hm_remove_filter
      dest: lru_sound_trim [OF lru_sound_capacity] intro: lru_sound_filter, simp add: lru_sound_def)
next
  fix c :: "'a lru" and ps
  assume "lru_section own c ps"
  then show "ps \<noteq> []"
    by cases (simp_all add: lru_get_points_def lru_insert_points_def lru_set_capacity_points_def Let_def)
qed

lemma lru_ok_sound: "lru_ok c \<longleftrightarrow> lru_sound (\<lambda>_ _. True) c \<and> length (entries c) \<le> capacity c"
  by (auto simp: lru_ok_def lru_sound_def)

text \<open>The next new secret brings a cache that was left too full back within its capacity.\<close>

lemma insert_heals:
  assumes "lru_sound own c" and "\<not> hm_contains (entries c) k"
  shows "length (entries (lru_insert c k v)) \<le> capacity c"
  using assms length_trim_entries [of "capacity c - 1" "entries c"]
  by (auto simp: lru_insert_def trim_to_def tick_def length_hm_insert lru_sound_def)

lemma resize_lowers_first:
  fixes c :: "'s lru"
  shows "c\<lparr>capacity := max cap 1\<rparr> \<in> set (lru_set_capacity_points c cap)"
proof -
  have "m \<in> set (trim_points len m)" for len and m :: "'s entry hmap"
    unfolding trim_points.simps [of len m] by (rule list.set_intros(1))
  then have "(c\<lparr>capacity := max cap 1\<rparr>)\<lparr>entries := entries c\<rparr> \<in>
      (\<lambda>m. (c\<lparr>capacity := max cap 1\<rparr>)\<lparr>entries := m\<rparr>) ` set (trim_points (max cap 1) (entries c))"
    by (rule imageI)
  then show ?thesis
    by (simp add: lru_set_capacity_points_def trim_to_points_def)
qed

subsection \<open>The sections of the registry\<close>

definition take_points :: "duration \<Rightarrow> instant \<Rightarrow> string \<Rightarrow> ('f, 'n) registry \<Rightarrow> ('f, 'n) registry list" where
  "take_points d t fid m =
     [m, (case hm_get m fid of None \<Rightarrow> m | Some e \<Rightarrow> hm_insert fid (e\<lparr>entry_flow := None\<rparr>) m),
      snd (take_flow d t fid m)]"

definition registry_sound :: "(string \<Rightarrow> 'f \<Rightarrow> bool) \<Rightarrow> ('f, 'n) registry \<Rightarrow> bool" where
  "registry_sound own m \<longleftrightarrow> hm_ok m \<and> (\<forall>x\<in>set m. \<forall>f. entry_flow (snd x) = Some f \<longrightarrow> own (fst x) f)"

inductive flows_section :: "(string \<Rightarrow> 'f \<Rightarrow> bool) \<Rightarrow> ('f, 'n) registry \<Rightarrow> ('f, 'n) registry list \<Rightarrow> bool"
  for own m where
  take_out: "flows_section own m (take_points d t fid m)"
| put_in: "own fid f \<Longrightarrow> flows_section own m [m, snd (put_back fid f m)]"
| check: "flows_section own m [m, snd (admit cap d t m)]"
| start: "(\<And>f. entry_flow e = Some f \<Longrightarrow> own fid f) \<Longrightarrow> flows_section own m [m, snd (try_insert cap d t fid e m)]"
| sweep: "flows_section own m [m, evict_expired t d m]"
| remove: "flows_section own m [m, hm_remove fid m]"

lemma registry_sound_filter: "registry_sound own m \<Longrightarrow> registry_sound own (filter P m)"
  by (auto simp: registry_sound_def)

lemma registry_sound_insert:
  "registry_sound own m \<Longrightarrow> (\<And>f. entry_flow e = Some f \<Longrightarrow> own fid f) \<Longrightarrow> registry_sound own (hm_insert fid e m)"
  by (auto simp: registry_sound_def set_hm_insert)

lemma registry_sound_evict: "registry_sound own m \<Longrightarrow> registry_sound own (evict_expired t d m)"
  by (auto simp: evict_expired_def intro: registry_sound_filter)

lemma registry_sound_take:
  "registry_sound own m \<Longrightarrow> m' \<in> set (take_points d t fid m) \<Longrightarrow> registry_sound own m'"
  by (auto simp: take_points_def take_flow_def intro!: registry_sound_evict registry_sound_insert split: option.splits)

interpretation registry: recovering "registry_sound own" "flows_section own"
proof
  fix m m' :: "('a, 'b) registry" and ps
  assume "registry_sound own m" and "flows_section own m ps" and "m' \<in> set ps"
  from this(2,1,3) show "registry_sound own m'"
    by cases (auto simp: put_back_def admit_def try_insert_def hm_remove_filter Let_def
        dest: registry_sound_take
        intro!: registry_sound_insert registry_sound_evict registry_sound_filter split: option.splits if_splits)
next
  fix m :: "('a, 'b) registry" and ps
  assume "flows_section own m ps"
  then show "ps \<noteq> []" by cases (simp_all add: take_points_def)
qed

subsection \<open>Properties\<close>

text \<open>
  C26 (error). A panic inside the session cache does not disable it and corrupts nothing. After any sequence of
  critical sections, each run to its end or broken off by a panic between two of its statements, the guard
  is answered and its cache is sound: what it holds for a secret is a session of that secret, and the next
  new secret brings it within its capacity, also when a panic broke off an eviction. A poisoned mutex that
  is taken with \<^verbatim>\<open>unwrap()\<close> would panic for ever.
\<close>

theorem cache_survives_panics:
  assumes "(section_step (lru_section own))\<^sup>*\<^sup>* (mutex_new (lru_new cap)) m"
  shows "lru_sound own (lru_guard m) \<and>
    (\<forall>k v stamp. fst (lru_get (lru_guard m) k) = Some (v, stamp) \<longrightarrow> own k v) \<and>
    (\<forall>k v. \<not> hm_contains (entries (lru_guard m)) k \<longrightarrow>
       length (entries (lru_insert (lru_guard m) k v)) \<le> capacity (lru_guard m)) \<and>
    (poisoned m \<longrightarrow> lock_unwrap m = None)"
proof -
  have "lru_sound own (guarded (mutex_new (lru_new cap)))"
    by (simp add: mutex_new_def lru_new_def lru_sound_def)
  then have s: "lru_sound own (guarded m)"
    by (rule cache.run_sound [OF assms])
  have "own k v" if "fst (lru_get (guarded m) k) = Some (v, stamp)" for k v stamp
    using that s by (auto simp: lru_get_def tick_def lru_sound_def dest!: hm_get_in_set split: option.splits)
  then show ?thesis
    using s insert_heals [OF s] by (simp add: lock_unwrap_def mutex_lock_def)
qed

theorem cache_survives_panics_witness:
  "\<exists>m :: nat lru mutex. (section_step (lru_section (\<lambda>k v. length k = v)))\<^sup>*\<^sup>* (mutex_new (lru_new 2)) m \<and>
     poisoned m \<and> capacity (lru_guard m) < length (entries (lru_guard m)) \<and>
     length (entries (lru_insert (lru_guard m) ''abc'' 3)) \<le> 1"
proof -
  let ?own = "\<lambda>(k :: string) (v :: nat). length k = v"
  let ?c = "lru_insert (lru_insert (lru_new 2) ''a'' 1) ''ab'' (2 :: nat)"
  let ?m = "\<lparr>guarded = ?c\<lparr>capacity := 1\<rparr>, poisoned = True\<rparr>"
  note eval = lru_insert_def lru_new_def tick_def trim_to_def hm_contains_def trim_entries.simps hm_insert_def
  have step: "section_step (lru_section ?own) (mutex_new c) (mutex_new (lru_insert c k v))"
    if "no_wrap c" "?own k v" for c k v
    using section_step.completes [where sections = "lru_section ?own" and m = "mutex_new c"
        and ps = "lru_insert_points c k v"] that
    by (simp add: last_points mutex_new_def lru_section.insert)
  have first: "section_step (lru_section ?own) (mutex_new (lru_new 2)) (mutex_new (lru_insert (lru_new 2) ''a'' 1))"
    by (rule step) (simp_all add: lru_new_def)
  have second: "section_step (lru_section ?own) (mutex_new (lru_insert (lru_new 2) ''a'' 1)) (mutex_new ?c)"
    by (rule step) (simp_all add: eval)
  have third: "section_step (lru_section ?own) (mutex_new ?c) ?m"
    using section_step.panics [where sections = "lru_section ?own" and m = "mutex_new ?c"
        and ps = "lru_set_capacity_points ?c 1" and d = "?c\<lparr>capacity := 1\<rparr>"] resize_lowers_first [of 1 ?c]
    by (simp add: mutex_new_def lru_section.resize)
  have run: "(section_step (lru_section ?own))\<^sup>*\<^sup>* (mutex_new (lru_new 2)) ?m"
    using first second third by (meson r_into_rtranclp rtranclp.rtrancl_into_rtrancl)
  have full: "length (entries ?c) = 2" "\<not> hm_contains (entries ?c) ''abc''"
    by (simp_all add: eval hm_get_def)
  show ?thesis
    using cache_survives_panics [OF run] run full by (intro exI [of _ ?m]) simp
qed

text \<open>
  The registry of sign-ins survives likewise: it never answers for one id with the flow of another.
\<close>

lemma registry_survives_panics:
  assumes "(section_step (flows_section own))\<^sup>*\<^sup>* (mutex_new []) m"
    and "hm_get (flows_guard m) fid = Some e" and "entry_flow e = Some f"
  shows "own fid f"
  using registry.run_sound [OF assms(1)] assms(2,3) hm_get_in_set [of "guarded m" fid e]
  by (auto simp: registry_sound_def mutex_new_def)

end
