(* ===== verification/Spec2Isabelle.thy ===== *)
theory Spec2Isabelle
  imports Event_Streams Sign_In_Races Ffi_Flows Ffi_Records Network_Client Grant_Features Poisoned_Locks
begin

text \<open>
  A verification development of \<^verbatim>\<open>pubkycore\<close>, the Rust crate under \<^verbatim>\<open>src/src\<close> that gives mobile and desktop
  hosts a blocking interface to the \<^verbatim>\<open>pubky\<close> SDK: keys and mnemonics, sign-up and sign-in, storage,
  storage locks, event streams, DNS records, and sign-ins approved on another device.

  \<^bold>\<open>The parts and how they meet.\<close> Every export blocks its caller's thread on one runtime, so any number of
  exports run at once and meet in process-wide state: the network client, the session cache, the slot of
  the pending sign-in with its resume state, the registry of sign-ins addressed by id, the table of event
  streams, the body limit, and the event listener. Writes with a session secret go through the session
  cache, which imports a session once, shares it, and imports it again when the homeserver refuses it.
  Sign-ins wait on a relay and are resumed while the relay's connections die. Replacing the client clears
  the cache.

  \<^bold>\<open>The theories.\<close> File and function names are those of \<^verbatim>\<open>src/src\<close>; a definition keeps its function's name.
  \<^item> \<open>Prelude\<close>: hash maps as association lists, string helpers of the standard library, durations and
    instants in nanoseconds, \<open>and_then\<close> for the question mark operator, and the locales \<open>absence\<close> and
    \<open>withdrawal\<close>.
  \<^item> \<open>Sdk_Errors\<close> (\<^verbatim>\<open>binding_error.rs\<close>, \<^verbatim>\<open>full_error_chain\<close> and \<^verbatim>\<open>parse_client_id\<close> of \<^verbatim>\<open>lib.rs\<close>): errors as data, their
    conversions and texts.
  \<^item> \<open>Lru_Cache\<close>, \<open>Session_Store\<close>, \<open>Single_Flight\<close> (\<^verbatim>\<open>session_cache.rs\<close>): the LRU with its 64-bit use counter; the
    store with \<^verbatim>\<open>get_or_mint\<close>, \<^verbatim>\<open>remint\<close> and \<^verbatim>\<open>with_session\<close> as one thread runs them; and the interleavings of
    any number of calls at the lock map, the per-secret lock and the cache, as a step relation.
  \<^item> \<open>Grant_Resume\<close> (\<^verbatim>\<open>grant_resume.rs\<close>): the resume slot with its generations, the backoff and the loop that
    rejoins a channel.
  \<^item> \<open>Flow_Handles\<close> (\<^verbatim>\<open>auth_flow_handles.rs\<close>): the registry of sign-ins by id, its limits, the sweep, and polling,
    awaiting and cancelling.
  \<^item> \<open>Poisoned_Locks\<close> (the guards \<^verbatim>\<open>lru\<close>, \<^verbatim>\<open>minting\<close>, \<^verbatim>\<open>flows\<close>, \<^verbatim>\<open>limits\<close> of these files): mutexes that a panic
    poisons, and the states a critical section passes through.
  \<^item> \<open>Auth_Flow\<close> (\<^verbatim>\<open>auth_flow.rs\<close>, \<^verbatim>\<open>start_grant_auth_flow\<close>, \<^verbatim>\<open>await_grant_auth_approval\<close>): the process-wide sign-in.
  \<^item> \<open>Sign_In_Races\<close> (the same exports with \<^verbatim>\<open>remember\<close>, \<^verbatim>\<open>clear\<close> and \<^verbatim>\<open>forget\<close> of \<^verbatim>\<open>grant_resume.rs\<close>): every
    interleaving of sign-in calls, one step per access to the flow slot, the generation counter and the
    resume slot; as a step relation, and as the function \<open>moves\<close> that lists the next steps.
  \<^item> \<open>Cookie_Exchange\<close> (\<^verbatim>\<open>cookie_exchange.rs\<close>): resolving the homeserver and spending the token, inside a budget.
  \<^item> \<open>Body_Limit\<close> (\<^verbatim>\<open>body_limit.rs\<close>), \<open>Storage_Api\<close> (\<^verbatim>\<open>storage.rs\<close>, \<^verbatim>\<open>locks.rs\<close>), \<open>Event_Streams\<close> (\<^verbatim>\<open>events.rs\<close>),
    \<open>Deep_Links\<close> (\<^verbatim>\<open>auth.rs\<close>), \<open>Grant_Features\<close> (\<^verbatim>\<open>grant_features.rs\<close>), \<open>Json_Utils\<close> (\<^verbatim>\<open>utils.rs\<close>), \<open>Keys\<close>
    (\<^verbatim>\<open>keypair.rs\<close> and the exports on keys), \<open>Network_Client\<close> (\<^verbatim>\<open>env_roots.rs\<close> and, from \<^verbatim>\<open>lib.rs\<close>,
    the relay's TLS roots, the building of a client and the client of the process).
  \<^item> \<open>Ffi_Sessions\<close>, \<open>Ffi_Calls\<close>, \<open>Ffi_Records\<close>, \<open>Ffi_Flows\<close>: the exports of \<^verbatim>\<open>lib.rs\<close>, by what they take: a session
    secret, a secret key or nothing, DNS records, a pending flow.

  \<^bold>\<open>How code becomes definitions.\<close> A struct is a record, an enum a datatype, a fallible function returns a
  sum with the error on the left, a panic is \<^term>\<open>None\<close>. Global state is passed explicitly. Code outside the
  repository (the SDK, \<^verbatim>\<open>pkarr\<close>, \<^verbatim>\<open>reqwest\<close>, \<^verbatim>\<open>serde_json\<close>, \<^verbatim>\<open>tokio\<close>, the clock, the file system) is a record of
  functions over an arbitrary world, which every definition that calls it takes as an argument; what the
  crate relies on of it is a named predicate such as \<open>mutex_contract\<close>, \<open>clock_contract\<close>, \<open>lateness\<close> or
  \<open>key_contract\<close>, each met by a concrete instance; where a property speaks of the requests that were made, the world
  is assumed to log them (\<open>logs_changes\<close>, \<open>logs_exchange\<close>). Builders are the list of calls made on them. Machine
  integers are words where they can wrap (the use counter, generations, stream numbers, limits);
  lengths of vectors are naturals.

  \<^bold>\<open>What is shown.\<close>
  \<^item> The LRU refines a bounded list of sessions in order of use, keeps its invariant, and evicts only the
    one used longest ago, in whatever order the hash map is iterated; this is the locale \<open>recency_cache\<close>,
    interpreted on the operations.
  \<^item> A request on a cached session is one request; a refusal imports once and repeats once; an uncached
    secret is imported once; the marker \<^verbatim>\<open>Session rejected\<close> opens exactly the failures a new sign-in cures;
    a secret signed out stays out while no call with it is under way, in every interleaving of the others, by the
    locale \<open>absence\<close>; a revoked grant's sessions are dropped; and the flag of an answer says whether the
    homeserver accepted the change.
  \<^item> Concurrent calls mint at most once at a time for a secret, never deadlock, and return in at most
    eight steps of their own; what a call can end with that runs alone is exactly what the sequential
    definition ends with.
  \<^item> The resume loop returns, restores only after a dead poll of its own relay, and drops the saved keys
    (locale \<open>saved_state\<close>).
  \<^item> However the process-wide sign-in calls overlap, a flow object has one owner, and the keys a loop resumed
    with are out of the slot once it has returned and no call is between two steps of an update; a call that
    meets no other runs as the sequential definition says, each such outcome has its run, and no call waits
    for another.
  \<^item> A sign-in by id is answered finally once and stays over whatever races with it (locale \<open>withdrawal\<close>, which
    extends \<open>absence\<close>), expires only after a look, and the registry stays bounded in every interleaving,
    reconfigurations and waits for its lock included; an await returns.
  \<^item> A panic inside a critical section of the session cache or the registry costs at most what that
    section was doing: what the recovered guard shows is sound (locale \<open>recovering\<close>).
  \<^item> The token exchange ends within its budget, up to what the runtime's timers are late, and spends the
    token only after a lookup that succeeded, and again only after a refused connection.
  \<^item> A subscription is listed exactly while it is live, and its listener hears one last word.
  \<^item> Bodies are bounded, addresses of others are refused, writes stay below \<^verbatim>\<open>/pub/\<close>,
    resolving a packet stays inside its bytes, the PEM text of a certificate can be taken apart again, a
    reconfiguration is all or nothing and trusts exactly the usable certificates the environment names, and sign-up
    answers say whether the account exists. Which bodies the text of \<^verbatim>\<open>get\<close> cannot tell apart is said exactly: a
    text that begins with \<^verbatim>\<open>base64:\<close> can be taken for an encoded body.
  \<^item> Seven interleavings in which the code does not keep what it means to keep: a mint lock that no call
    holds stays in the map; a session imported before a switch of networks is cached after it; so is one
    whose secret is signed out meanwhile; a
    refresh revives a released storage lock; a poll revives a cancelled sign-in; a
    poll overtaken by a new sign-in puts the old flow over the new one or wipes its resume state; a
    cancellation inside a start leaves a sign-in that is never resumed.

  \<^bold>\<open>Bounds and fuel.\<close> Loops are recursions with a termination proof, by the attempts that are left or the
  items that remain. The resume loop and the await loop are partial functions into \<^typ>\<open>'a option\<close>, and that
  they return is proved, the resume loop after at most 170 restores: one per second of its window. The
  refinement of the LRU assumes that the 64-bit use counter does not wrap, and the streams are followed up
  to the last 64-bit number; the interleavings of sign-ins are followed for fewer than \<open>2\<^sup>6\<^sup>4\<close> generations.

  \<^bold>\<open>Not modelled.\<close> The crypto provider, logging, the panic hook and the runtime (values of third-party
  libraries, set once); \<^verbatim>\<open>rustls_init.rs\<close> and \<^verbatim>\<open>bin/uniffi-bindgen.rs\<close> (one call into a library each); what a
  lazy cell is after its initialiser panicked; what \<^verbatim>\<open>uniffi\<close> generates; \<^verbatim>\<open>tests.rs\<close>.
  Sequential theories run one call at a time; overlap is modelled where the code is written for it or
  where it fails: the mints, the registry, the streams, the storage lock and the process-wide sign-in.
  \<open>Sign_In_Races\<close> leaves open when the resume loop gives up, which \<open>Grant_Resume\<close> defines, and does not
  follow the flow objects into the SDK.
\<close>

end
